theory Spec2Isabelle
  imports Main "HOL-Library.Sublist"
begin

section \<open>JavaScript values and string primitives\<close>

text \<open>
  The scoring services read properties of plain objects. A property is either absent
  (\<open>undefined\<close> or \<open>null\<close>, which every expression of the services treats alike), a string,
  or some other value (a number, a boolean, an array, ...) of which only the truthiness
  matters, because it has none of the string methods the services call on it.

  Strings are Isabelle strings, their characters read as the code units U+0000 to U+00FF
  (Basic Latin and Latin-1). Lower-casing, white space, line terminators and the
  canonicalisation of the regular expressions are JavaScript's on these code units.
\<close>

datatype js_value = Missing | Str string | NonString bool

datatype js_error = TypeError | ProviderError string | AppError string nat

fun truthy :: "js_value \<Rightarrow> bool" where
  "truthy Missing = False"
| "truthy (Str s) = (s \<noteq> [])"
| "truthy (NonString b) = b"

text \<open>\<open>String.prototype.toLowerCase\<close>: the letters A to Z and the Latin-1 capitals
  U+00C0 to U+00DE (the multiplication sign U+00D7 is not a letter) move up by 32.\<close>

definition toLowerChar :: "char \<Rightarrow> char" where
  "toLowerChar c =
     (let n = (of_char c :: nat)
      in if (65 \<le> n \<and> n \<le> 90) \<or> (192 \<le> n \<and> n \<le> 222 \<and> n \<noteq> 215)
         then char_of (n + 32) else c)"

definition toLowerCase :: "string \<Rightarrow> string" where
  "toLowerCase s = map toLowerChar s"

text \<open>\<open>String.prototype.toUpperCase\<close>: the letters a to z and the Latin-1 small letters
  U+00E0 to U+00FE (not the division sign U+00F7) move down by 32, and the sharp s U+00DF
  becomes \<open>SS\<close>. The upper-case forms of U+00B5 and U+00FF lie beyond U+00FF; these two
  characters are left as they are. The services call \<open>toUpperCase\<close> only on the first
  character of a matched intent label, which is a letter of Basic Latin.\<close>

definition toUpperChars :: "char \<Rightarrow> string" where
  "toUpperChars c =
     (let n = (of_char c :: nat)
      in if (97 \<le> n \<and> n \<le> 122) \<or> (224 \<le> n \<and> n \<le> 254 \<and> n \<noteq> 247)
         then [char_of (n - 32)]
         else if n = 223 then ''SS'' else [c])"

definition toUpperCase :: "string \<Rightarrow> string" where
  "toUpperCase s = concat (map toUpperChars s)"

text \<open>The canonical form of a character under the \<open>i\<close> flag of a regular expression
  without the \<open>u\<close> flag: the code unit of its upper-case form when that is a single code
  unit, and the character itself otherwise (the sharp s). U+00FF and U+00B5 go to
  U+0178 and U+039C. Two characters match when their canonical forms are equal.\<close>

definition canonicalize :: "char \<Rightarrow> nat" where
  "canonicalize c =
     (let n = (of_char c :: nat)
      in if (97 \<le> n \<and> n \<le> 122) \<or> (224 \<le> n \<and> n \<le> 254 \<and> n \<noteq> 247) then n - 32
         else if n = 255 then 376
         else if n = 181 then 924
         else n)"

definition canonicalForm :: "string \<Rightarrow> nat list" where
  "canonicalForm s = map canonicalize s"

text \<open>\<open>s.includes(t)\<close>: \<open>t\<close> occurs in \<open>s\<close> as a contiguous run of characters.\<close>

definition str_includes :: "string \<Rightarrow> string \<Rightarrow> bool" where
  "str_includes s t = sublist t s"

text \<open>White space as \<open>trim\<close> and the regular expression class \<open>\s\<close> see it:
  tab, line feed, vertical tab, form feed, carriage return, space and the no-break
  space U+00A0.\<close>

definition isWhiteSpace :: "char \<Rightarrow> bool" where
  "isWhiteSpace c =
     (let n = (of_char c :: nat) in (9 \<le> n \<and> n \<le> 13) \<or> n = 32 \<or> n = 160)"

definition trim :: "string \<Rightarrow> string" where
  "trim s = rev (dropWhile isWhiteSpace (rev (dropWhile isWhiteSpace s)))"

text \<open>A method call on a property value: on anything but a string the call raises
  a \<open>TypeError\<close> (reading a property of \<open>undefined\<close>, or calling what is not a function).\<close>

fun js_toLowerCase :: "js_value \<Rightarrow> js_error + string" where
  "js_toLowerCase (Str s) = Inr (toLowerCase s)"
| "js_toLowerCase v = Inl TypeError"

fun js_trim :: "js_value \<Rightarrow> js_error + string" where
  "js_trim (Str s) = Inr (trim s)"
| "js_trim v = Inl TypeError"

text \<open>\<open>try { body } catch (error) { handler }\<close> on results: the handler runs on what the
  body raised, and may raise itself.\<close>

definition try_catch :: "js_error + 'a \<Rightarrow> (js_error \<Rightarrow> js_error + 'a) \<Rightarrow> js_error + 'a" where
  "try_catch body handler = (case body of Inl e \<Rightarrow> handler e | Inr v \<Rightarrow> Inr v)"

section \<open>Data model\<close>

record lead =
  name :: js_value
  role :: js_value
  company :: js_value
  industry :: js_value
  location :: js_value
  linkedin_bio :: js_value

text \<open>An offer; its two sequences may be absent, and their entries are property values.\<close>

record offer =
  offer_name :: js_value
  value_props :: "js_value list option"
  ideal_use_cases :: "js_value list option"

record rule_result =
  roleScore :: nat
  industryScore :: nat
  completenessScore :: nat
  totalScore :: nat

section \<open>Rule-based scoring (ruleScoringService)\<close>

definition decisionMakerKeywords :: "string list" where
  "decisionMakerKeywords =
     [''ceo'', ''cto'', ''cfo'', ''chief'', ''president'', ''director'', ''head'',
      ''founder'', ''owner'', ''vp'', ''vice president'', ''general manager'',
      ''managing director'', ''senior vice president'']"

definition influencerKeywords :: "string list" where
  "influencerKeywords =
     [''manager'', ''lead'', ''senior'', ''principal'', ''specialist'', ''architect'',
      ''coordinator'', ''supervisor'', ''administrator'']"

definition scoreRoleRelevance :: "js_value \<Rightarrow> js_error + nat" where
  "scoreRoleRelevance r =
     (if \<not> truthy r then Inr 0
      else (case js_toLowerCase r of
        Inl e \<Rightarrow> Inl e
      | Inr roleLower \<Rightarrow>
          if list_ex (\<lambda>keyword. str_includes roleLower keyword) decisionMakerKeywords then Inr 20
          else if list_ex (\<lambda>keyword. str_includes roleLower keyword) influencerKeywords then Inr 10
          else Inr 0))"

definition adjacentIndustries :: "string list" where
  "adjacentIndustries = [''saas'', ''tech'', ''technology'', ''software'']"

text \<open>The \<open>for (const useCase of idealUseCases)\<close> loop: both tests sit in the loop body,
  so the first use case that passes either of them decides.\<close>

fun industryLoop :: "string \<Rightarrow> js_value list \<Rightarrow> js_error + nat" where
  "industryLoop industryLower [] = Inr 0"
| "industryLoop industryLower (useCase # rest) =
     (case js_toLowerCase useCase of
        Inl e \<Rightarrow> Inl e
      | Inr useCaseLower \<Rightarrow>
          if str_includes useCaseLower industryLower \<or> str_includes industryLower useCaseLower
          then Inr 20
          else if list_ex (\<lambda>adj. str_includes industryLower adj \<or> str_includes useCaseLower adj)
                    adjacentIndustries
          then Inr 10
          else industryLoop industryLower rest)"

definition scoreIndustryMatch :: "js_value \<Rightarrow> js_value list option \<Rightarrow> js_error + nat" where
  "scoreIndustryMatch ind idealUseCases =
     (case idealUseCases of
        None \<Rightarrow> Inr 0
      | Some useCases \<Rightarrow>
          if \<not> truthy ind \<or> length useCases = 0 then Inr 0
          else (case js_toLowerCase ind of
                  Inl e \<Rightarrow> Inl e
                | Inr industryLower \<Rightarrow> industryLoop industryLower useCases))"

text \<open>The callback of \<open>requiredFields.every\<close>: \<open>value && value.trim().length > 0\<close>.\<close>

definition fieldPresent :: "js_value \<Rightarrow> js_error + bool" where
  "fieldPresent v =
     (if \<not> truthy v then Inr False
      else (case js_trim v of Inl e \<Rightarrow> Inl e | Inr t \<Rightarrow> Inr (length t > 0)))"

text \<open>\<open>Array.prototype.every\<close>: stops at the first field whose callback is falsy; a
  callback that raises ends the pass with its error.\<close>

fun every :: "js_value list \<Rightarrow> js_error + bool" where
  "every [] = Inr True"
| "every (v # vs) =
     (case fieldPresent v of
        Inl e \<Rightarrow> Inl e
      | Inr ok \<Rightarrow> if ok then every vs else Inr False)"

definition requiredFields :: "lead \<Rightarrow> js_value list" where
  "requiredFields l = [name l, role l, company l, industry l, location l]"

definition scoreDataCompleteness :: "lead \<Rightarrow> js_error + nat" where
  "scoreDataCompleteness l =
     (case every (requiredFields l) of
        Inl e \<Rightarrow> Inl e
      | Inr allPresent \<Rightarrow> Inr (if allPresent then 10 else 0))"

definition ruleScoreBody :: "lead \<Rightarrow> offer \<Rightarrow> js_error + rule_result" where
  "ruleScoreBody l off =
     (case scoreRoleRelevance (role l) of
        Inl e \<Rightarrow> Inl e
      | Inr rs \<Rightarrow>
     (case scoreIndustryMatch (industry l) (ideal_use_cases off) of
        Inl e \<Rightarrow> Inl e
      | Inr ins \<Rightarrow>
     (case scoreDataCompleteness l of
        Inl e \<Rightarrow> Inl e
      | Inr cs \<Rightarrow>
          Inr \<lparr> roleScore = rs, industryScore = ins, completenessScore = cs,
                totalScore = rs + ins + cs \<rparr>)))"

definition calculateRuleScore :: "lead \<Rightarrow> offer \<Rightarrow> js_error + rule_result" where
  "calculateRuleScore l off =
     try_catch (ruleScoreBody l off)
       (\<lambda>error. Inr \<lparr> roleScore = 0, industryScore = 0, completenessScore = 0,
                        totalScore = 0 \<rparr>)"

section \<open>Intent classification (aiScoringService)\<close>

subsection \<open>Parsing the oracle's reply\<close>

text \<open>A literal of a regular expression under the \<open>i\<close> flag, at the start of \<open>s\<close>:
  characters are compared in their canonical forms.\<close>

definition startsWithCI :: "string \<Rightarrow> string \<Rightarrow> bool" where
  "startsWithCI pat s = (canonicalForm (take (length pat) s) = canonicalForm pat)"

text \<open>\<open>String.prototype.match\<close> without the \<open>g\<close> flag: the pattern is tried at every start
  position from the left, the end of the string included; the first success is the match.\<close>

fun regexSearch :: "(string \<Rightarrow> 'a option) \<Rightarrow> string \<Rightarrow> 'a option" where
  "regexSearch m [] = m []"
| "regexSearch m (c # cs) =
     (case m (c # cs) of Some r \<Rightarrow> Some r | None \<Rightarrow> regexSearch m cs)"

text \<open>\<open>/INTENT:\s*(High|Medium|Low)/i\<close> at one start position; the result is capture
  group 1. No alternative starts with white space, so the greedy \<open>\s*\<close> never gives
  characters back.\<close>

definition intentLabels :: "string list" where
  "intentLabels = [''High'', ''Medium'', ''Low'']"

definition intentMatchAt :: "string \<Rightarrow> string option" where
  "intentMatchAt s =
     (if startsWithCI ''INTENT:'' s then
        (let rest = dropWhile isWhiteSpace (drop (length ''INTENT:'') s) in
         case find (\<lambda>alt. startsWithCI alt rest) intentLabels of
           None \<Rightarrow> None
         | Some alt \<Rightarrow> Some (take (length alt) rest))
      else None)"

definition isLineTerminator :: "char \<Rightarrow> bool" where
  "isLineTerminator c = (c = CHR 0x0A \<or> c = CHR 0x0D)"

text \<open>\<open>(.+?)(?:\n|$)\<close> at one position: the lazy group grows over characters that are not
  line terminators, and stops as soon as a line feed or the end of the input follows.\<close>

definition captureLine :: "string \<Rightarrow> string option" where
  "captureLine r =
     (let run = takeWhile (\<lambda>c. \<not> isLineTerminator c) r;
          after = drop (length run) r
      in if run \<noteq> [] \<and> (after = [] \<or> hd after = CHR 0x0A) then Some run else None)"

text \<open>The greedy \<open>\s*\<close> of the reasoning pattern first takes all \<open>k\<close> white space
  characters and gives them back one by one while the rest of the pattern fails.\<close>

fun reasoningBacktrack :: "nat \<Rightarrow> string \<Rightarrow> string option" where
  "reasoningBacktrack 0 rest = captureLine rest"
| "reasoningBacktrack (Suc k) rest =
     (case captureLine (drop (Suc k) rest) of
        Some r \<Rightarrow> Some r
      | None \<Rightarrow> reasoningBacktrack k rest)"

text \<open>\<open>/REASONING:\s*(.+?)(?:\n|$)/i\<close> at one start position; the result is capture
  group 1.\<close>

definition reasoningMatchAt :: "string \<Rightarrow> string option" where
  "reasoningMatchAt s =
     (if startsWithCI ''REASONING:'' s then
        (let rest = drop (length ''REASONING:'') s in
         reasoningBacktrack (length (takeWhile isWhiteSpace rest)) rest)
      else None)"

text \<open>\<open>parseAIResponse\<close> returns the pair \<open>{ intent, reasoning }\<close>. On a response that is
  not a string, \<open>response.match\<close> raises and the \<open>catch\<close> branch answers.\<close>

definition parseAIResponse :: "js_value \<Rightarrow> string \<times> string" where
  "parseAIResponse response =
     (case response of
        Str text \<Rightarrow>
          (let intentMatch = regexSearch intentMatchAt text;
               intent = (case intentMatch of
                           Some m \<Rightarrow> toUpperCase (take 1 m) @ toLowerCase (drop 1 m)
                         | None \<Rightarrow> ''Medium'');
               reasoningMatch = regexSearch reasoningMatchAt text;
               reasoning = (case reasoningMatch of
                              Some m \<Rightarrow> trim m
                            | None \<Rightarrow> ''AI analysis completed'')
           in (intent, reasoning))
      | _ \<Rightarrow> (''Medium'', ''Unable to parse AI response''))"

subsection \<open>Mapping an intent to a score\<close>

text \<open>
  What \<open>mapping[intent] || 30\<close> yields: a number, or, for a key that the object literal
  inherits from \<open>Object.prototype\<close>, the inherited member (a function or object, which
  is truthy, so the default 30 does not apply). \<open>Concatenated n k\<close> is the string that
  \<open>+\<close> builds from the number \<open>n\<close> and the inherited member under key \<open>k\<close>.
\<close>

datatype score_value = Num nat | ObjectMember string | Concatenated nat string

definition mapping :: "(string \<times> nat) list" where
  "mapping = [(''High'', 50), (''Medium'', 30), (''Low'', 10)]"

definition objectPrototypeKeys :: "string list" where
  "objectPrototypeKeys =
     [''constructor'', ''__defineGetter__'', ''__defineSetter__'', ''hasOwnProperty'',
      ''__lookupGetter__'', ''__lookupSetter__'', ''isPrototypeOf'',
      ''propertyIsEnumerable'', ''toString'', ''valueOf'', ''__proto__'',
      ''toLocaleString'']"

text \<open>Property access on an object literal with numeric own properties: own properties
  first, then the prototype; \<open>None\<close> is \<open>undefined\<close>.\<close>

definition getProperty :: "(string \<times> nat) list \<Rightarrow> string \<Rightarrow> score_value option" where
  "getProperty obj key =
     (case map_of obj key of
        Some n \<Rightarrow> Some (Num n)
      | None \<Rightarrow> if key \<in> set objectPrototypeKeys then Some (ObjectMember key) else None)"

definition mapIntentToScore :: "string \<Rightarrow> score_value" where
  "mapIntentToScore intent =
     (case getProperty mapping intent of
        None \<Rightarrow> Num 30
      | Some (Num n) \<Rightarrow> if n = 0 then Num 30 else Num n
      | Some v \<Rightarrow> v)"

fun js_plus :: "nat \<Rightarrow> score_value \<Rightarrow> score_value" where
  "js_plus a (Num b) = Num (a + b)"
| "js_plus a (ObjectMember k) = Concatenated a k"
| "js_plus a (Concatenated b k) = Concatenated b k"

record intent_result =
  intent :: string
  score :: score_value
  reasoning :: string

subsection \<open>Fallback heuristic\<close>

text \<open>\<open>Array.prototype.some\<close> with a callback that may raise: stops at the first truthy
  answer.\<close>

fun js_some :: "('a \<Rightarrow> js_error + bool) \<Rightarrow> 'a list \<Rightarrow> js_error + bool" where
  "js_some f [] = Inr False"
| "js_some f (x # xs) =
     (case f x of Inl e \<Rightarrow> Inl e | Inr b \<Rightarrow> if b then Inr True else js_some f xs)"

text \<open>\<open>v?.toLowerCase()\<close>: an absent value short-circuits the rest of the chain to
  \<open>undefined\<close> (\<open>None\<close>), arguments of later calls included.\<close>

fun optionalLower :: "js_value \<Rightarrow> js_error + string option" where
  "optionalLower Missing = Inr None"
| "optionalLower (Str s) = Inr (Some (toLowerCase s))"
| "optionalLower (NonString b) = Inl TypeError"

definition strongRoleCallback :: "lead \<Rightarrow> string \<Rightarrow> js_error + bool" where
  "strongRoleCallback l keyword =
     (case optionalLower (role l) of
        Inl e \<Rightarrow> Inl e
      | Inr None \<Rightarrow> Inr False
      | Inr (Some roleLower) \<Rightarrow> Inr (str_includes roleLower keyword))"

definition relevantIndustryCallback :: "lead \<Rightarrow> js_value \<Rightarrow> js_error + bool" where
  "relevantIndustryCallback l useCase =
     (case optionalLower (industry l) of
        Inl e \<Rightarrow> Inl e
      | Inr None \<Rightarrow> Inr False
      | Inr (Some industryLower) \<Rightarrow>
          (case js_toLowerCase useCase of
             Inl e \<Rightarrow> Inl e
           | Inr useCaseLower \<Rightarrow> Inr (str_includes industryLower useCaseLower)))"

definition strongRoleKeywords :: "string list" where
  "strongRoleKeywords = [''ceo'', ''cto'', ''founder'', ''director'', ''head'']"

definition getFallbackScore :: "lead \<Rightarrow> offer \<Rightarrow> js_error + intent_result" where
  "getFallbackScore l off =
     (case js_some (strongRoleCallback l) strongRoleKeywords of
        Inl e \<Rightarrow> Inl e
      | Inr hasStrongRole \<Rightarrow>
     (case ideal_use_cases off of
        None \<Rightarrow> Inl TypeError
      | Some useCases \<Rightarrow>
     (case js_some (relevantIndustryCallback l) useCases of
        Inl e \<Rightarrow> Inl e
      | Inr hasRelevantIndustry \<Rightarrow>
          if hasStrongRole \<and> hasRelevantIndustry then
            Inr \<lparr> intent = ''High'', score = Num 50,
                  reasoning = ''Strong indicators: relevant role and industry match'' \<rparr>
          else if hasStrongRole \<or> hasRelevantIndustry then
            Inr \<lparr> intent = ''Medium'', score = Num 30,
                  reasoning = ''Moderate indicators present'' \<rparr>
          else
            Inr \<lparr> intent = ''Low'', score = Num 10,
                  reasoning = ''Limited indicators of strong fit'' \<rparr>)))"

subsection \<open>Providers\<close>

text \<open>
  A configured provider is a client; what happens between building the prompt and reading
  the text of the completion (the request, the shape of the response) is the client's:
  either that text or what was raised on the way.
\<close>

type_synonym client = "lead \<Rightarrow> offer \<Rightarrow> js_error + string"

record ai_env =
  AI_PROVIDER :: "string option"
  openai :: "client option"
  gemini :: "client option"

text \<open>The module-level clients \<open>openai\<close> and \<open>gemini\<close> are \<open>null\<close> (\<open>None\<close>) when not
  configured; a call through a \<open>null\<close> client raises.\<close>

definition providerScore :: "client option \<Rightarrow> lead \<Rightarrow> offer \<Rightarrow> js_error + intent_result" where
  "providerScore c l off =
     (case c of
        None \<Rightarrow> Inl TypeError
      | Some request \<Rightarrow>
     (case request l off of
        Inl e \<Rightarrow> Inl e
      | Inr content \<Rightarrow>
          (let aiResponse = trim content;
               (intent', reasoning') = parseAIResponse (Str aiResponse);
               score' = mapIntentToScore intent'
           in Inr \<lparr> intent = intent', score = score', reasoning = reasoning' \<rparr>)))"

definition calculateOpenAIScore :: "ai_env \<Rightarrow> lead \<Rightarrow> offer \<Rightarrow> js_error + intent_result" where
  "calculateOpenAIScore env l off =
     try_catch (providerScore (openai env) l off) (\<lambda>error. Inl error)"

definition calculateGeminiScore :: "ai_env \<Rightarrow> lead \<Rightarrow> offer \<Rightarrow> js_error + intent_result" where
  "calculateGeminiScore env l off =
     try_catch (providerScore (gemini env) l off) (\<lambda>error. Inl error)"

text \<open>\<open>process.env.AI_PROVIDER?.toLowerCase() || 'openai'\<close>\<close>

definition aiProvider :: "ai_env \<Rightarrow> string" where
  "aiProvider env =
     (case AI_PROVIDER env of
        None \<Rightarrow> ''openai''
      | Some p \<Rightarrow> if toLowerCase p = [] then ''openai'' else toLowerCase p)"

definition calculateAIScore :: "ai_env \<Rightarrow> lead \<Rightarrow> offer \<Rightarrow> js_error + intent_result" where
  "calculateAIScore env l off =
     try_catch
       (if openai env \<noteq> None \<and> aiProvider env = ''openai'' then calculateOpenAIScore env l off
        else if gemini env \<noteq> None \<and> aiProvider env = ''gemini'' then calculateGeminiScore env l off
        else if openai env \<noteq> None then calculateOpenAIScore env l off
        else if gemini env \<noteq> None then calculateGeminiScore env l off
        else getFallbackScore l off)
       (\<lambda>error. getFallbackScore l off)"

section \<open>Combining the scores (scoringService)\<close>

text \<open>A number in a template literal: its decimal digits.\<close>

definition digitChar :: "nat \<Rightarrow> char" where
  "digitChar d = char_of (48 + d)"

function numberToString :: "nat \<Rightarrow> string" where
  "numberToString n =
     (if n < 10 then [digitChar n] else numberToString (n div 10) @ [digitChar (n mod 10)])"
  by pat_completeness auto
termination
  by (relation "measure id") auto

text \<open>\<open>parts.join(sep)\<close>\<close>

fun join :: "string list \<Rightarrow> string \<Rightarrow> string" where
  "join [] sep = []"
| "join [p] sep = p"
| "join (p # q # ps) sep = p @ sep @ join (q # ps) sep"

definition getRuleBreakdown :: "rule_result \<Rightarrow> string" where
  "getRuleBreakdown ruleResult =
     (let parts = [];
          parts = (if roleScore ruleResult > 0
                   then parts @ [''role relevance ('' @ numberToString (roleScore ruleResult) @ '' pts)'']
                   else parts);
          parts = (if industryScore ruleResult > 0
                   then parts @ [''industry match ('' @ numberToString (industryScore ruleResult) @ '' pts)'']
                   else parts);
          parts = (if completenessScore ruleResult > 0
                   then parts @ [''data completeness ('' @ numberToString (completenessScore ruleResult) @ '' pts)'']
                   else parts)
      in if length parts > 0 then join parts '', '' else ''no rule matches'')"

text \<open>The scored lead is the lead's own properties (\<open>...lead\<close>) and the results; its
  \<open>intent\<close>, \<open>score\<close> and \<open>reasoning\<close> carry the prefix \<open>lead_\<close> here.\<close>

record scored_lead = lead +
  lead_intent :: string
  lead_score :: score_value
  lead_reasoning :: string
  ruleScore :: nat
  aiScore :: score_value
  scoreBreakdown :: rule_result

definition scoreLead :: "ai_env \<Rightarrow> lead \<Rightarrow> offer \<Rightarrow> js_error + scored_lead" where
  "scoreLead env l off =
     try_catch
       (case calculateRuleScore l off of
          Inl e \<Rightarrow> Inl e
        | Inr ruleResult \<Rightarrow>
       (case calculateAIScore env l off of
          Inl e \<Rightarrow> Inl e
        | Inr aiResult \<Rightarrow>
            (let finalScore = js_plus (totalScore ruleResult) (score aiResult);
                 intent' = intent aiResult;
                 reasoning' = reasoning aiResult @ '' Rule-based analysis: ''
                                @ getRuleBreakdown ruleResult
             in Inr \<lparr> name = name l, role = role l, company = company l,
                      industry = industry l, location = location l,
                      linkedin_bio = linkedin_bio l,
                      lead_intent = intent', lead_score = finalScore,
                      lead_reasoning = reasoning',
                      ruleScore = totalScore ruleResult, aiScore = score aiResult,
                      scoreBreakdown = ruleResult \<rparr>)))
       (\<lambda>error. Inl (AppError ''Failed to score lead'' 500))"

subsection \<open>The batch\<close>

text \<open>
  \<open>Promise.all\<close> over promises that settle in some order. \<open>order\<close> lists the indices of
  the promises in the order in which they settle (the order of the oracle's answers).
  A fulfilment stores its value at the promise's own index; the first rejection rejects
  the whole; the result is fulfilled once every slot is filled, and stays pending if
  some promise never settles.
\<close>

datatype 'a promise_state = Fulfilled 'a | Rejected js_error | Pending

fun settleAll :: "nat list \<Rightarrow> (js_error + 'a) list \<Rightarrow> 'a option list \<Rightarrow> 'a list promise_state" where
  "settleAll [] promises values =
     (case those values of Some vs \<Rightarrow> Fulfilled vs | None \<Rightarrow> Pending)"
| "settleAll (i # order) promises values =
     (if i < length promises then
        (case promises ! i of
           Inl e \<Rightarrow> Rejected e
         | Inr v \<Rightarrow> settleAll order promises (values[i := Some v]))
      else settleAll order promises values)"

definition promiseAll :: "nat list \<Rightarrow> (js_error + 'a) list \<Rightarrow> 'a list promise_state" where
  "promiseAll order promises = settleAll order promises (replicate (length promises) None)"

text \<open>\<open>scoreLeads\<close> awaits the combined promise: \<open>None\<close> is a call that never returns.\<close>

definition scoreLeads ::
  "ai_env \<Rightarrow> nat list \<Rightarrow> lead list \<Rightarrow> offer \<Rightarrow> (js_error + scored_lead list) option" where
  "scoreLeads env order leads off =
     (let scorePromises = map (\<lambda>l. scoreLead env l off) leads in
      case promiseAll order scorePromises of
        Fulfilled results \<Rightarrow> Some (Inr results)
      | Rejected error \<Rightarrow> Some (Inl (AppError ''Failed to score leads'' 500))
      | Pending \<Rightarrow> None)"

section \<open>Notions of the specification\<close>

text \<open>A field is populated when it is present as a string and not blank after trimming:
  some character of it is not white space.\<close>

definition populated :: "js_value \<Rightarrow> bool" where
  "populated v = (case v of Str s \<Rightarrow> \<exists>c\<in>set s. \<not> isWhiteSpace c | _ \<Rightarrow> False)"

text \<open>The two tests of the industry match, on the strings as given: either string
  contains the other, or one of them contains an adjacency keyword; case is ignored.\<close>

definition exactMatch :: "string \<Rightarrow> string \<Rightarrow> bool" where
  "exactMatch ind useCase =
     (str_includes (toLowerCase useCase) (toLowerCase ind)
      \<or> str_includes (toLowerCase ind) (toLowerCase useCase))"

definition adjacentMatch :: "string \<Rightarrow> string \<Rightarrow> bool" where
  "adjacentMatch ind useCase =
     (\<exists>adj\<in>set adjacentIndustries.
        str_includes (toLowerCase ind) adj \<or> str_includes (toLowerCase useCase) adj)"

text \<open>The industry sub-score as the specification words it: the first use case, in order,
  at which either test holds decides; 20 if the strings contain one another, else 10.\<close>

definition industryScoreSpec :: "string \<Rightarrow> string list \<Rightarrow> nat" where
  "industryScoreSpec ind useCases =
     (case find (\<lambda>useCase. exactMatch ind useCase \<or> adjacentMatch ind useCase) useCases of
        None \<Rightarrow> 0
      | Some useCase \<Rightarrow> if exactMatch ind useCase then 20 else 10)"

text \<open>The role tiers: a role contains a keyword of a set, case ignored.\<close>

definition mentions :: "string \<Rightarrow> string list \<Rightarrow> bool" where
  "mentions r keywords = (\<exists>keyword\<in>set keywords. str_includes (toLowerCase r) keyword)"

text \<open>A letter of Basic Latin, A to Z or a to z.\<close>

definition isBasicLetter :: "char \<Rightarrow> bool" where
  "isBasicLetter c =
     (let n = (of_char c :: nat) in (65 \<le> n \<and> n \<le> 90) \<or> (97 \<le> n \<and> n \<le> 122))"

text \<open>The pattern \<open>INTENT: <High|Medium|Low>\<close> occurs in a reply: the marker, any white
  space, and one of the three labels, in any letter case.\<close>

definition hasIntentPattern :: "string \<Rightarrow> bool" where
  "hasIntentPattern text =
     (\<exists>pre marker ws label post.
        text = pre @ marker @ ws @ label @ post
        \<and> canonicalForm marker = canonicalForm ''INTENT:''
        \<and> (\<forall>c\<in>set ws. isWhiteSpace c)
        \<and> (\<exists>alt\<in>set intentLabels. canonicalForm label = canonicalForm alt))"

text \<open>The pattern \<open>REASONING: <text>\<close> occurs in a reply: the marker, any white space,
  and a non-empty run without line terminators that ends at a line feed or at the end
  of the reply.\<close>

definition hasReasoningPattern :: "string \<Rightarrow> bool" where
  "hasReasoningPattern text =
     (\<exists>pre marker ws captured post.
        text = pre @ marker @ ws @ captured @ post
        \<and> canonicalForm marker = canonicalForm ''REASONING:''
        \<and> (\<forall>c\<in>set ws. isWhiteSpace c)
        \<and> captured \<noteq> []
        \<and> (\<forall>c\<in>set captured. \<not> isLineTerminator c)
        \<and> (post = [] \<or> hd post = CHR 0x0A))"

text \<open>The rule clause of the reasoning as the specification words it: the sub-scores that
  are not zero, in the order role, industry, completeness, each as
  \<open><label> (<N> pts)\<close>, joined by a comma and a space; \<open>no rule matches\<close> if there is none.\<close>

definition renderPart :: "string \<times> nat \<Rightarrow> string" where
  "renderPart p = fst p @ '' ('' @ numberToString (snd p) @ '' pts)''"

definition ruleClauseSpec :: "rule_result \<Rightarrow> string" where
  "ruleClauseSpec r =
     (let nonzero = filter (\<lambda>p. snd p \<noteq> 0)
                      [(''role relevance'', roleScore r),
                       (''industry match'', industryScore r),
                       (''data completeness'', completenessScore r)]
      in if nonzero = [] then ''no rule matches'' else join (map renderPart nonzero) '', '')"

subsection \<open>Sample data\<close>

definition sampleLead :: lead where
  "sampleLead =
     \<lparr> name = Str ''Ava Patel'', role = Str ''Director of Marketing'',
       company = Str ''FlowMetrics'', industry = Str ''B2B SaaS'',
       location = Str ''San Francisco'', linkedin_bio = Missing \<rparr>"

definition sampleOffer :: offer where
  "sampleOffer =
     \<lparr> offer_name = Str ''AI Outreach Automation'',
       value_props = Some [Str ''24/7 outreach'', Str ''6x more meetings''],
       ideal_use_cases = Some [Str ''B2B SaaS mid-market'', Str ''Sales teams''] \<rparr>"

definition noProvider :: ai_env where
  "noProvider = \<lparr> AI_PROVIDER = None, openai = None, gemini = None \<rparr>"

definition developerLead :: lead where
  "developerLead = sampleLead\<lparr> role := Str ''Developer'' \<rparr>"

definition blankLead :: lead where
  "blankLead =
     \<lparr> name = Missing, role = Missing, company = Missing, industry = Missing,
       location = Missing, linkedin_bio = Missing \<rparr>"

text \<open>What scoring the sample lead without a provider returns.\<close>

definition sampleScored :: scored_lead where
  "sampleScored =
     \<lparr> name = Str ''Ava Patel'', role = Str ''Director of Marketing'',
       company = Str ''FlowMetrics'', industry = Str ''B2B SaaS'',
       location = Str ''San Francisco'', linkedin_bio = Missing,
       lead_intent = ''Medium'', lead_score = Num 80,
       lead_reasoning = ''Moderate indicators present Rule-based analysis: role relevance (20 pts), industry match (20 pts), data completeness (10 pts)'',
       ruleScore = 50, aiScore = Num 30,
       scoreBreakdown = \<lparr> roleScore = 20, industryScore = 20, completenessScore = 10,
                           totalScore = 50 \<rparr> \<rparr>"

text \<open>A client whose completion has neither pattern, and one that follows the format.\<close>

definition vagueClient :: client where
  "vagueClient l off = Inr ''I cannot classify this lead.''"

definition formatClient :: client where
  "formatClient l off = Inr (''INTENT: high'' @ [CHR 0x0A] @ ''REASONING: Decision maker in the ICP.'')"

definition failingClient :: client where
  "failingClient l off = Inl (ProviderError ''429 Too Many Requests'')"

definition openaiOnly :: "client \<Rightarrow> ai_env" where
  "openaiOnly c = \<lparr> AI_PROVIDER = None, openai = Some c, gemini = None \<rparr>"

section \<open>Properties\<close>

subsection \<open>Strings\<close>


lemma toLowerCase_append: "toLowerCase (a @ b) = toLowerCase a @ toLowerCase b"
  by (simp add: toLowerCase_def)

lemma str_includes_extend: "str_includes s k \<Longrightarrow> str_includes (pre @ s @ post) k"
  unfolding str_includes_def sublist_def by (metis append.assoc)

lemma str_includes_Nil: "str_includes [] k \<longleftrightarrow> k = []"
  by (simp add: str_includes_def)

lemma ex_dropWhile: "(\<exists>x\<in>set (dropWhile P s). \<not> P x) \<longleftrightarrow> (\<exists>x\<in>set s. \<not> P x)"
proof
  assume "\<exists>x\<in>set (dropWhile P s). \<not> P x"
  then show "\<exists>x\<in>set s. \<not> P x" by (blast dest: set_dropWhileD)
next
  assume "\<exists>x\<in>set s. \<not> P x"
  then have ne: "dropWhile P s \<noteq> []" by (simp add: dropWhile_eq_Nil_conv)
  then have "\<not> P (hd (dropWhile P s))" by (rule hd_dropWhile)
  moreover have "hd (dropWhile P s) \<in> set (dropWhile P s)" using ne by simp
  ultimately show "\<exists>x\<in>set (dropWhile P s). \<not> P x" by blast
qed

lemma trim_nonempty: "trim s \<noteq> [] \<longleftrightarrow> (\<exists>c\<in>set s. \<not> isWhiteSpace c)"
proof -
  have "trim s \<noteq> [] \<longleftrightarrow> (\<exists>x\<in>set (dropWhile isWhiteSpace s). \<not> isWhiteSpace x)"
    unfolding trim_def by (simp add: dropWhile_eq_Nil_conv)
  then show ?thesis by (simp add: ex_dropWhile)
qed

section \<open>Role relevance\<close>

lemma mentions_Nil: "\<not> mentions [] decisionMakerKeywords" "\<not> mentions [] influencerKeywords"
  by (simp_all add: mentions_def toLowerCase_def str_includes_Nil decisionMakerKeywords_def
        influencerKeywords_def)

lemma mentions_extend: "mentions r ks \<Longrightarrow> mentions (pre @ r @ post) ks"
  unfolding mentions_def by (auto simp: toLowerCase_append intro: str_includes_extend)

lemma scoreRoleRelevance_Str:
  "scoreRoleRelevance (Str r) =
     Inr (if mentions r decisionMakerKeywords then 20
          else if mentions r influencerKeywords then 10 else 0)"
proof (cases "r = []")
  case True
  then show ?thesis using mentions_Nil by (simp add: scoreRoleRelevance_def)
next
  case False
  then show ?thesis
    by (simp add: scoreRoleRelevance_def mentions_def list_ex_iff)
qed

text \<open>Claim C6. For every role string the role sub-score is 20 if the lower-cased role
  contains a decision-maker keyword, else 10 if it contains an influencer keyword, else 0.
  The decision-maker test comes first: a role that contains a decision-maker keyword scores
  20 whatever is written before or after it, influencer keywords included. An empty or
  absent role scores 0.\<close>

theorem scoreRoleRelevance_tiers:
  "scoreRoleRelevance (Str r) =
     Inr (if mentions r decisionMakerKeywords then 20
          else if mentions r influencerKeywords then 10 else 0)
   \<and> (mentions r decisionMakerKeywords \<longrightarrow> scoreRoleRelevance (Str (pre @ r @ post)) = Inr 20)
   \<and> scoreRoleRelevance (Str []) = Inr 0
   \<and> scoreRoleRelevance Missing = Inr 0"
proof -
  have "mentions r decisionMakerKeywords \<Longrightarrow> scoreRoleRelevance (Str (pre @ r @ post)) = Inr 20"
    using mentions_extend[of r decisionMakerKeywords pre post]
    by (simp add: scoreRoleRelevance_Str)
  moreover have "scoreRoleRelevance (Str []) = Inr 0" "scoreRoleRelevance Missing = Inr 0"
    by (simp_all add: scoreRoleRelevance_def)
  ultimately show ?thesis using scoreRoleRelevance_Str[of r] by blast
qed

theorem scoreRoleRelevance_tiers_witness:
  "mentions ''Director'' decisionMakerKeywords
   \<and> scoreRoleRelevance (Str ''Director'') = Inr 20
   \<and> scoreRoleRelevance (Str (''Senior '' @ ''Director'' @ '' and Team Lead'')) = Inr 20
   \<and> \<not> mentions ''Sales Manager'' decisionMakerKeywords
   \<and> scoreRoleRelevance (Str ''Sales Manager'') = Inr 10"
proof -
  have a: "mentions ''Director'' decisionMakerKeywords" by code_simp
  have b: "\<not> mentions ''Sales Manager'' decisionMakerKeywords" by code_simp
  have c: "mentions ''Sales Manager'' influencerKeywords" by code_simp
  show ?thesis
    using a b c scoreRoleRelevance_tiers[of "''Director''" "''Senior ''" "'' and Team Lead''"]
      scoreRoleRelevance_tiers[of "''Sales Manager''" "[]" "[]"]
    by simp
qed

lemma scoreRoleRelevance_range:
  "scoreRoleRelevance v = Inr n \<Longrightarrow> n = 0 \<or> n = 10 \<or> n = 20"
  by (cases v) (auto simp: scoreRoleRelevance_def split: if_splits)

lemma scoreRoleRelevance_not_Str:
  "\<forall>s. v \<noteq> Str s \<Longrightarrow> scoreRoleRelevance v = Inr n \<Longrightarrow> n = 0"
  by (cases v) (auto simp: scoreRoleRelevance_def split: if_splits)

section \<open>Industry match\<close>

lemma industryLoop_spec:
  "industryLoop (toLowerCase ind) (map Str useCases) = Inr (industryScoreSpec ind useCases)"
proof (induction useCases)
  case Nil
  show ?case by (simp add: industryScoreSpec_def)
next
  case (Cons u us)
  then show ?case
    by (simp add: industryScoreSpec_def exactMatch_def adjacentMatch_def list_ex_iff)
qed

lemma industryLoop_range:
  "industryLoop il ucs = Inr n \<Longrightarrow> n = 0 \<or> n = 10 \<or> n = 20"
proof (induction ucs)
  case Nil
  then show ?case by simp
next
  case (Cons u us)
  then show ?case by (cases "js_toLowerCase u") (auto split: if_splits)
qed

lemma scoreIndustryMatch_range:
  "scoreIndustryMatch v ucs = Inr n \<Longrightarrow> n = 0 \<or> n = 10 \<or> n = 20"
  by (cases v; cases ucs)
     (auto simp: scoreIndustryMatch_def split: if_splits dest: industryLoop_range)

lemma scoreIndustryMatch_not_Str:
  "\<forall>s. v \<noteq> Str s \<Longrightarrow> scoreIndustryMatch v ucs = Inr n \<Longrightarrow> n = 0"
  by (cases v; cases ucs) (auto simp: scoreIndustryMatch_def split: if_splits)

text \<open>Claim C2. For a non-empty industry and a non-empty list of use cases, one pass in
  order decides: the first use case at which the strings contain one another (20) or at
  which the industry or the use case contains an adjacency keyword (10) ends the pass;
  with no such use case the score is 0. An adjacency hit at an earlier use case returns 10
  although a later use case matches exactly: for the industry \<open>Retail\<close> the use cases
  \<open>SaaS platforms, Retail chains\<close> score 10, and the same two in the other order score 20.\<close>

theorem scoreIndustryMatch_first_hit:
  "(ind \<noteq> [] \<and> useCases \<noteq> [] \<longrightarrow>
      scoreIndustryMatch (Str ind) (Some (map Str useCases)) = Inr (industryScoreSpec ind useCases))
   \<and> scoreIndustryMatch (Str ''Retail'') (Some [Str ''SaaS platforms'', Str ''Retail chains'']) = Inr 10
   \<and> exactMatch ''Retail'' ''Retail chains''
   \<and> scoreIndustryMatch (Str ''Retail'') (Some [Str ''Retail chains'', Str ''SaaS platforms'']) = Inr 20"
proof -
  have "ind \<noteq> [] \<Longrightarrow> useCases \<noteq> [] \<Longrightarrow>
      scoreIndustryMatch (Str ind) (Some (map Str useCases)) = Inr (industryScoreSpec ind useCases)"
    by (simp add: scoreIndustryMatch_def industryLoop_spec)
  moreover have
    "scoreIndustryMatch (Str ''Retail'') (Some [Str ''SaaS platforms'', Str ''Retail chains'']) = Inr 10"
    by code_simp
  moreover have "exactMatch ''Retail'' ''Retail chains''"
    by code_simp
  moreover have
    "scoreIndustryMatch (Str ''Retail'') (Some [Str ''Retail chains'', Str ''SaaS platforms'']) = Inr 20"
    by code_simp
  ultimately show ?thesis by blast
qed

theorem scoreIndustryMatch_first_hit_witness:
  "''B2B SaaS'' \<noteq> [] \<and> [''B2B SaaS mid-market'', ''Sales teams''] \<noteq> []
   \<and> scoreIndustryMatch (Str ''B2B SaaS'') (Some (map Str [''B2B SaaS mid-market'', ''Sales teams''])) = Inr 20
   \<and> scoreIndustryMatch (Str ''Logistics'') (Some (map Str [''Hospital groups'', ''Sales teams''])) = Inr 0
   \<and> scoreIndustryMatch (Str (''CAF'' @ [CHR 0xC9]))
         (Some (map Str [''caf'' @ [CHR 0xE9] @ '' chains''])) = Inr 20"
proof -
  have a: "industryScoreSpec ''B2B SaaS'' [''B2B SaaS mid-market'', ''Sales teams''] = 20"
    by code_simp
  have b: "industryScoreSpec ''Logistics'' [''Hospital groups'', ''Sales teams''] = 0"
    by code_simp
  have c: "industryScoreSpec (''CAF'' @ [CHR 0xC9]) [''caf'' @ [CHR 0xE9] @ '' chains''] = 20"
    by code_simp
  show ?thesis
    using a b c
      scoreIndustryMatch_first_hit[of "''B2B SaaS''" "[''B2B SaaS mid-market'', ''Sales teams'']"]
      scoreIndustryMatch_first_hit[of "''Logistics''" "[''Hospital groups'', ''Sales teams'']"]
      scoreIndustryMatch_first_hit[of "''CAF'' @ [CHR 0xC9]" "[''caf'' @ [CHR 0xE9] @ '' chains'']"]
    by simp
qed

section \<open>Data completeness\<close>

lemma fieldPresent_True: "fieldPresent v = Inr True \<longleftrightarrow> populated v"
  by (cases v) (auto simp: fieldPresent_def populated_def trim_nonempty)

lemma fieldPresent_benign: "v \<noteq> NonString True \<Longrightarrow> fieldPresent v = Inr (populated v)"
  by (cases v) (auto simp: fieldPresent_def populated_def trim_nonempty)

lemma every_True: "every vs = Inr True \<longleftrightarrow> (\<forall>v\<in>set vs. populated v)"
proof (induction vs)
  case Nil
  show ?case by simp
next
  case (Cons v vs)
  show ?case
  proof (cases "fieldPresent v")
    case (Inl e)
    then have "\<not> populated v" using fieldPresent_True[of v] by simp
    with Inl show ?thesis by simp
  next
    case (Inr ok)
    then have "ok = populated v" using fieldPresent_True[of v] by (cases ok) auto
    with Inr Cons.IH show ?thesis by simp
  qed
qed

lemma every_benign:
  "\<forall>v\<in>set vs. v \<noteq> NonString True \<Longrightarrow> every vs = Inr (\<forall>v\<in>set vs. populated v)"
  by (induction vs) (simp_all add: fieldPresent_benign)

lemma scoreDataCompleteness_10:
  "scoreDataCompleteness l = Inr 10 \<longleftrightarrow> (\<forall>v\<in>set (requiredFields l). populated v)"
proof -
  have "scoreDataCompleteness l = Inr 10 \<longleftrightarrow> every (requiredFields l) = Inr True"
    by (cases "every (requiredFields l)") (auto simp: scoreDataCompleteness_def)
  then show ?thesis by (simp add: every_True)
qed

lemma scoreDataCompleteness_range:
  "scoreDataCompleteness l = Inr n \<Longrightarrow> n = 0 \<or> n = 10"
  by (cases "every (requiredFields l)") (auto simp: scoreDataCompleteness_def split: if_splits)

text \<open>Claim C7. The completeness sub-score is 10 exactly when the five fields name, role,
  company, industry and location are all populated (present and not blank after trimming);
  if one of them is missing or blank, it is 0. (A field that holds a truthy value other than
  a string makes \<open>trim\<close> raise; such a lead is not a lead of the data model, and the
  second part is stated for leads without such a field.)\<close>

theorem scoreDataCompleteness_all_or_nothing:
  "(scoreDataCompleteness l = Inr 10 \<longleftrightarrow>
      populated (name l) \<and> populated (role l) \<and> populated (company l)
      \<and> populated (industry l) \<and> populated (location l))
   \<and> (name l \<noteq> NonString True \<and> role l \<noteq> NonString True \<and> company l \<noteq> NonString True
        \<and> industry l \<noteq> NonString True \<and> location l \<noteq> NonString True
        \<and> \<not> (populated (name l) \<and> populated (role l) \<and> populated (company l)
              \<and> populated (industry l) \<and> populated (location l))
      \<longrightarrow> scoreDataCompleteness l = Inr 0)"
proof -
  have a: "scoreDataCompleteness l = Inr 10 \<longleftrightarrow>
      populated (name l) \<and> populated (role l) \<and> populated (company l)
      \<and> populated (industry l) \<and> populated (location l)"
    by (simp add: scoreDataCompleteness_10 requiredFields_def)
  have b: "scoreDataCompleteness l = Inr 0"
    if "\<forall>v\<in>set (requiredFields l). v \<noteq> NonString True"
      and "\<not> (\<forall>v\<in>set (requiredFields l). populated v)"
    using that by (simp add: scoreDataCompleteness_def every_benign)
  show ?thesis using a b by (simp add: requiredFields_def)
qed

theorem scoreDataCompleteness_all_or_nothing_witness:
  "scoreDataCompleteness sampleLead = Inr 10
   \<and> scoreDataCompleteness (sampleLead\<lparr>company := Str ''  ''\<rparr>) = Inr 0
   \<and> scoreDataCompleteness (sampleLead\<lparr>company := Str [CHR 0xA0]\<rparr>) = Inr 0
   \<and> scoreDataCompleteness (sampleLead\<lparr>location := Missing\<rparr>) = Inr 0"
proof -
  have p: "populated (Str ''Ava Patel'')" "populated (Str ''Director of Marketing'')"
    "populated (Str ''FlowMetrics'')" "populated (Str ''B2B SaaS'')"
    "populated (Str ''San Francisco'')" "\<not> populated (Str ''  '')"
    "\<not> populated (Str [CHR 0xA0])" "\<not> populated Missing"
    by (simp_all add: populated_def isWhiteSpace_def)
  show ?thesis
    using p scoreDataCompleteness_all_or_nothing[of sampleLead]
      scoreDataCompleteness_all_or_nothing[of "sampleLead\<lparr>company := Str ''  ''\<rparr>"]
      scoreDataCompleteness_all_or_nothing[of "sampleLead\<lparr>company := Str [CHR 0xA0]\<rparr>"]
      scoreDataCompleteness_all_or_nothing[of "sampleLead\<lparr>location := Missing\<rparr>"]
    by (simp add: sampleLead_def)
qed

section \<open>The rule breakdown\<close>

lemma ruleScoreBody_Inr:
  "ruleScoreBody l off = Inr r \<Longrightarrow>
     scoreRoleRelevance (role l) = Inr (roleScore r)
     \<and> scoreIndustryMatch (industry l) (ideal_use_cases off) = Inr (industryScore r)
     \<and> scoreDataCompleteness l = Inr (completenessScore r)
     \<and> totalScore r = roleScore r + industryScore r + completenessScore r"
  by (auto simp: ruleScoreBody_def split: sum.splits)

lemma calculateRuleScore_cases:
  "(\<exists>r. ruleScoreBody l off = Inr r \<and> calculateRuleScore l off = Inr r)
   \<or> ((\<exists>e. ruleScoreBody l off = Inl e) \<and> calculateRuleScore l off =
         Inr \<lparr> roleScore = 0, industryScore = 0, completenessScore = 0, totalScore = 0 \<rparr>)"
  by (cases "ruleScoreBody l off") (simp_all add: calculateRuleScore_def try_catch_def)

lemma calculateRuleScore_total: "\<exists>r. calculateRuleScore l off = Inr r"
  using calculateRuleScore_cases[of l off] by blast

lemma calculateRuleScore_sum:
  "calculateRuleScore l off = Inr r \<Longrightarrow>
     totalScore r = roleScore r + industryScore r + completenessScore r"
  using calculateRuleScore_cases[of l off] by (auto dest: ruleScoreBody_Inr)

lemma calculateRuleScore_ranges:
  assumes "calculateRuleScore l off = Inr r"
  shows "roleScore r \<in> {0, 10, 20}" "industryScore r \<in> {0, 10, 20}"
    "completenessScore r \<in> {0, 10}"
  using calculateRuleScore_cases[of l off] assms
  by (auto dest!: ruleScoreBody_Inr dest: scoreRoleRelevance_range scoreIndustryMatch_range
        scoreDataCompleteness_range)

lemma calculateRuleScore_le_50:
  assumes "calculateRuleScore l off = Inr r"
  shows "totalScore r \<le> 50"
  using calculateRuleScore_ranges[OF assms] calculateRuleScore_sum[OF assms] by auto

lemma calculateRuleScore_role_degraded:
  "calculateRuleScore l off = Inr r \<Longrightarrow> \<forall>s. role l \<noteq> Str s \<Longrightarrow> roleScore r = 0"
  using calculateRuleScore_cases[of l off]
  by (auto dest!: ruleScoreBody_Inr dest: scoreRoleRelevance_not_Str)

lemma calculateRuleScore_industry_degraded:
  "calculateRuleScore l off = Inr r \<Longrightarrow>
     (\<forall>s. industry l \<noteq> Str s) \<or> ideal_use_cases off = None \<or> ideal_use_cases off = Some []
     \<Longrightarrow> industryScore r = 0"
  using calculateRuleScore_cases[of l off]
  by (auto dest!: ruleScoreBody_Inr dest: scoreIndustryMatch_not_Str
        simp: scoreIndustryMatch_def)

lemma calculateRuleScore_completeness_degraded:
  assumes "calculateRuleScore l off = Inr r"
    and "\<not> (\<forall>v\<in>set (requiredFields l). populated v)"
  shows "completenessScore r = 0"
proof -
  from calculateRuleScore_cases[of l off] assms(1)
  consider "ruleScoreBody l off = Inr r" | "completenessScore r = 0" by auto
  then show ?thesis
  proof cases
    case 1
    then have "scoreDataCompleteness l = Inr (completenessScore r)"
      by (simp add: ruleScoreBody_Inr)
    then show ?thesis
      using scoreDataCompleteness_range[of l "completenessScore r"]
        scoreDataCompleteness_10[of l] assms(2) by auto
  next
    case 2
    then show ?thesis .
  qed
qed

text \<open>Claim C8. For every lead and offer, fields missing or malformed included,
  \<open>calculateRuleScore\<close> returns a breakdown and raises nothing; the total is the sum of the
  three sub-scores; the role sub-score is 0 when the role is not a string, the industry
  sub-score is 0 when the industry is not a string or there is no use case, and the
  completeness sub-score is 0 when one of the five fields is not populated.\<close>

theorem calculateRuleScore_never_raises:
  "\<exists>r. calculateRuleScore l off = Inr r
     \<and> totalScore r = roleScore r + industryScore r + completenessScore r
     \<and> ((\<forall>s. role l \<noteq> Str s) \<longrightarrow> roleScore r = 0)
     \<and> ((\<forall>s. industry l \<noteq> Str s) \<or> ideal_use_cases off = None \<or> ideal_use_cases off = Some []
          \<longrightarrow> industryScore r = 0)
     \<and> (\<not> (populated (name l) \<and> populated (role l) \<and> populated (company l)
             \<and> populated (industry l) \<and> populated (location l))
          \<longrightarrow> completenessScore r = 0)"
proof -
  obtain r where r: "calculateRuleScore l off = Inr r"
    using calculateRuleScore_total by blast
  have "\<not> (populated (name l) \<and> populated (role l) \<and> populated (company l)
             \<and> populated (industry l) \<and> populated (location l))
        \<Longrightarrow> completenessScore r = 0"
    using calculateRuleScore_completeness_degraded[OF r] by (simp add: requiredFields_def)
  then show ?thesis
    using r calculateRuleScore_sum[OF r] calculateRuleScore_role_degraded[OF r]
      calculateRuleScore_industry_degraded[OF r]
    by blast
qed

theorem calculateRuleScore_never_raises_witness:
  "calculateRuleScore (sampleLead\<lparr>role := Missing\<rparr>) sampleOffer =
     Inr \<lparr> roleScore = 0, industryScore = 20, completenessScore = 0, totalScore = 20 \<rparr>
   \<and> calculateRuleScore (sampleLead\<lparr>industry := NonString True\<rparr>) sampleOffer =
     Inr \<lparr> roleScore = 0, industryScore = 0, completenessScore = 0, totalScore = 0 \<rparr>
   \<and> (\<exists>r. calculateRuleScore (sampleLead\<lparr>role := Missing\<rparr>) sampleOffer = Inr r
          \<and> totalScore r = roleScore r + industryScore r + completenessScore r
          \<and> roleScore r = 0 \<and> completenessScore r = 0)"
proof -
  have a: "calculateRuleScore (sampleLead\<lparr>role := Missing\<rparr>) sampleOffer =
     Inr \<lparr> roleScore = 0, industryScore = 20, completenessScore = 0, totalScore = 20 \<rparr>"
    by code_simp
  have b: "calculateRuleScore (sampleLead\<lparr>industry := NonString True\<rparr>) sampleOffer =
     Inr \<lparr> roleScore = 0, industryScore = 0, completenessScore = 0, totalScore = 0 \<rparr>"
    by code_simp
  have c: "\<forall>s. role (sampleLead\<lparr>role := Missing\<rparr>) \<noteq> Str s"
    "\<not> populated (role (sampleLead\<lparr>role := Missing\<rparr>))"
    by (simp_all add: populated_def)
  show ?thesis
    using a b c calculateRuleScore_never_raises[of "sampleLead\<lparr>role := Missing\<rparr>" sampleOffer]
    by auto
qed

section \<open>Fallback heuristic\<close>

text \<open>Claim C1, on the code. The sample lead is a director whose industry \<open>B2B SaaS\<close> is a
  substring of the use case \<open>B2B SaaS mid-market\<close>, case ignored. The fallback tests the
  opposite containment (the industry has to contain the use case), finds no relevant
  industry and answers Medium with 30 points.\<close>

theorem getFallbackScore_director_substring_industry:
  "mentions ''Director of Marketing'' strongRoleKeywords
   \<and> str_includes (toLowerCase ''B2B SaaS mid-market'') (toLowerCase ''B2B SaaS'')
   \<and> getFallbackScore sampleLead sampleOffer =
       Inr \<lparr> intent = ''Medium'', score = Num 30, reasoning = ''Moderate indicators present'' \<rparr>"
  by code_simp

subsection \<open>Regular expression search\<close>

lemma regexSearch_Some:
  "regexSearch m s = Some r \<Longrightarrow> \<exists>pre suf. s = pre @ suf \<and> m suf = Some r"
proof (induction s)
  case Nil
  then show ?case by simp
next
  case (Cons c cs)
  show ?case
  proof (cases "m (c # cs)")
    case None
    with Cons.prems have "regexSearch m cs = Some r" by simp
    then obtain pre suf where "cs = pre @ suf" "m suf = Some r"
      using Cons.IH by blast
    then have "c # cs = (c # pre) @ suf \<and> m suf = Some r" by simp
    then show ?thesis by blast
  next
    case (Some r')
    with Cons.prems have "c # cs = [] @ (c # cs) \<and> m (c # cs) = Some r" by simp
    then show ?thesis by blast
  qed
qed

lemma regexSearch_hit:
  "m suf \<noteq> None \<Longrightarrow> regexSearch m (pre @ suf) \<noteq> None"
proof (induction pre)
  case Nil
  then show ?case by (cases suf) auto
next
  case (Cons c pre)
  then show ?case by (cases "m (c # pre @ suf)") auto
qed

lemma length_canonicalForm: "length (canonicalForm s) = length s"
  by (simp add: canonicalForm_def)

lemma canonicalForm_eq_length: "canonicalForm a = canonicalForm b \<Longrightarrow> length a = length b"
  using length_canonicalForm[of a] length_canonicalForm[of b] by simp

lemma startsWithCI_iff:
  "startsWithCI pat s \<longleftrightarrow> (\<exists>a b. s = a @ b \<and> canonicalForm a = canonicalForm pat)"
proof
  assume "startsWithCI pat s"
  then have "s = take (length pat) s @ drop (length pat) s
      \<and> canonicalForm (take (length pat) s) = canonicalForm pat"
    by (simp add: startsWithCI_def)
  then show "\<exists>a b. s = a @ b \<and> canonicalForm a = canonicalForm pat" by blast
next
  assume "\<exists>a b. s = a @ b \<and> canonicalForm a = canonicalForm pat"
  then obtain a b where s: "s = a @ b" and u: "canonicalForm a = canonicalForm pat" by blast
  from u have "length a = length pat" by (rule canonicalForm_eq_length)
  with s u show "startsWithCI pat s" by (simp add: startsWithCI_def)
qed

lemma canonicalize_whitespace:
  "isWhiteSpace c \<Longrightarrow> canonicalize c \<in> {9, 10, 11, 12, 13, 32, 160}"
  unfolding isWhiteSpace_def canonicalize_def Let_def by auto

lemma intentLabels_head:
  "alt \<in> set intentLabels \<Longrightarrow> alt \<noteq> [] \<and> canonicalize (hd alt) \<in> {72, 76, 77}"
  by (auto simp: intentLabels_def canonicalize_def)

lemma label_no_leading_space:
  assumes "alt \<in> set intentLabels" and "canonicalForm label = canonicalForm alt"
  shows "label \<noteq> [] \<and> \<not> isWhiteSpace (hd label)"
proof -
  from intentLabels_head[OF assms(1)] obtain a as where
    alt: "alt = a # as" and a: "canonicalize a \<in> {72, 76, 77}"
    by (cases alt) auto
  from assms(2) alt obtain c cs where l: "label = c # cs" and c: "canonicalize c = canonicalize a"
    by (cases label) (auto simp: canonicalForm_def)
  have "\<not> isWhiteSpace c"
  proof
    assume "isWhiteSpace c"
    then have "canonicalize c \<in> {9, 10, 11, 12, 13, 32, 160}" by (rule canonicalize_whitespace)
    with c a show False by auto
  qed
  with l show ?thesis by simp
qed

lemma intentMatchAt_Some:
  assumes "intentMatchAt s = Some m"
  shows "\<exists>marker ws post. s = marker @ ws @ m @ post
           \<and> canonicalForm marker = canonicalForm ''INTENT:''
           \<and> (\<forall>c\<in>set ws. isWhiteSpace c)
           \<and> (\<exists>alt\<in>set intentLabels. canonicalForm m = canonicalForm alt)"
proof -
  define n where "n = length ''INTENT:''"
  define rest where "rest = dropWhile isWhiteSpace (drop n s)"
  from assms have sw: "startsWithCI ''INTENT:'' s"
    unfolding intentMatchAt_def by (simp split: if_splits)
  with assms have "(case find (\<lambda>alt. startsWithCI alt rest) intentLabels of
           None \<Rightarrow> None
         | Some alt \<Rightarrow> Some (take (length alt) rest)) = Some m"
    unfolding intentMatchAt_def rest_def n_def Let_def by (simp only: if_True)
  then obtain alt where
    f: "find (\<lambda>alt. startsWithCI alt rest) intentLabels = Some alt"
    and m: "m = take (length alt) rest"
    by (auto split: option.splits)
  from f have alt: "alt \<in> set intentLabels" and sa: "startsWithCI alt rest"
    by (auto simp: find_Some_iff)
  from sa m have um: "canonicalForm m = canonicalForm alt" by (simp add: startsWithCI_def)
  from sw have mk: "canonicalForm (take n s) = canonicalForm ''INTENT:''"
    unfolding startsWithCI_def n_def .
  have "s = take n s @ drop n s" by simp
  also have "drop n s = takeWhile isWhiteSpace (drop n s) @ rest"
    by (simp add: rest_def)
  also have "rest = m @ drop (length alt) rest" by (simp add: m)
  finally have "s = take n s @ takeWhile isWhiteSpace (drop n s) @ m @ drop (length alt) rest" .
  moreover have "\<forall>c\<in>set (takeWhile isWhiteSpace (drop n s)). isWhiteSpace c"
    by (auto dest: set_takeWhileD)
  ultimately show ?thesis using mk um alt by blast
qed

lemma intentMatchAt_hit:
  assumes mk: "canonicalForm marker = canonicalForm ''INTENT:''"
    and ws: "\<forall>c\<in>set ws. isWhiteSpace c"
    and alt: "alt \<in> set intentLabels"
    and lab: "canonicalForm label = canonicalForm alt"
  shows "intentMatchAt (marker @ ws @ label @ post) \<noteq> None"
proof -
  define n where "n = length ''INTENT:''"
  from mk have len: "length marker = n"
    unfolding n_def by (rule canonicalForm_eq_length)
  have sw: "startsWithCI ''INTENT:'' (marker @ ws @ label @ post)"
    using mk startsWithCI_iff by blast
  from label_no_leading_space[OF alt lab] obtain c cs
    where l: "label = c # cs" "\<not> isWhiteSpace c"
    by (cases label) auto
  have rest: "dropWhile isWhiteSpace (drop n (marker @ ws @ label @ post)) = label @ post"
    using len ws l by (simp add: dropWhile_append2)
  have "startsWithCI alt (label @ post)"
    using lab startsWithCI_iff by blast
  with alt have "find (\<lambda>alt. startsWithCI alt (label @ post)) intentLabels \<noteq> None"
    by (auto simp: find_None_iff)
  then obtain a where "find (\<lambda>alt. startsWithCI alt (label @ post)) intentLabels = Some a"
    by auto
  with sw rest show ?thesis
    unfolding intentMatchAt_def Let_def n_def[symmetric] by simp
qed

lemma intentMatch_iff: "regexSearch intentMatchAt text \<noteq> None \<longleftrightarrow> hasIntentPattern text"
proof
  assume "regexSearch intentMatchAt text \<noteq> None"
  then obtain m where "regexSearch intentMatchAt text = Some m" by auto
  from regexSearch_Some[OF this] obtain pre suf
    where t: "text = pre @ suf" and "intentMatchAt suf = Some m"
    by (elim exE conjE)
  from intentMatchAt_Some[OF this(2)] obtain marker ws post where
    "suf = marker @ ws @ m @ post" "canonicalForm marker = canonicalForm ''INTENT:''"
    "\<forall>c\<in>set ws. isWhiteSpace c" "\<exists>alt\<in>set intentLabels. canonicalForm m = canonicalForm alt"
    by (elim exE conjE)
  then have *: "text = pre @ marker @ ws @ m @ post
        \<and> canonicalForm marker = canonicalForm ''INTENT:''
        \<and> (\<forall>c\<in>set ws. isWhiteSpace c)
        \<and> (\<exists>alt\<in>set intentLabels. canonicalForm m = canonicalForm alt)"
    using t by simp
  show "hasIntentPattern text"
    unfolding hasIntentPattern_def
    by (rule exI[of _ pre], rule exI[of _ marker], rule exI[of _ ws], rule exI[of _ m],
        rule exI[of _ post], rule *)
next
  assume "hasIntentPattern text"
  then obtain pre marker ws label post where
    t: "text = pre @ marker @ ws @ label @ post"
    and mk: "canonicalForm marker = canonicalForm ''INTENT:''"
    and ws: "\<forall>c\<in>set ws. isWhiteSpace c"
    and "\<exists>alt\<in>set intentLabels. canonicalForm label = canonicalForm alt"
    unfolding hasIntentPattern_def by (elim exE conjE)
  then obtain alt where "alt \<in> set intentLabels" "canonicalForm label = canonicalForm alt"
    by (elim bexE)
  with mk ws have "intentMatchAt (marker @ ws @ label @ post) \<noteq> None"
    by (rule intentMatchAt_hit)
  then show "regexSearch intentMatchAt text \<noteq> None"
    unfolding t by (rule regexSearch_hit)
qed

lemma captureLine_Some:
  assumes "captureLine r = Some captured"
  shows "captured \<noteq> [] \<and> (\<forall>c\<in>set captured. \<not> isLineTerminator c)
         \<and> (\<exists>post. r = captured @ post \<and> (post = [] \<or> hd post = CHR 0x0A))"
proof -
  define run where "run = takeWhile (\<lambda>c. \<not> isLineTerminator c) r"
  define after where "after = drop (length run) r"
  from assms have c: "captured = run" and ne: "run \<noteq> []"
    and e: "after = [] \<or> hd after = CHR 0x0A"
    unfolding captureLine_def Let_def run_def after_def by (auto split: if_splits)
  have "r = run @ after"
    unfolding run_def after_def by (simp add: dropWhile_eq_drop[symmetric])
  moreover have "\<forall>c\<in>set run. \<not> isLineTerminator c"
    unfolding run_def by (auto dest: set_takeWhileD)
  ultimately show ?thesis using c ne e by blast
qed

lemma captureLine_hit:
  assumes "captured \<noteq> []" and "\<forall>c\<in>set captured. \<not> isLineTerminator c"
    and "post = [] \<or> hd post = CHR 0x0A"
  shows "captureLine (captured @ post) = Some captured"
proof -
  have "takeWhile (\<lambda>c. \<not> isLineTerminator c) post = []"
    using assms(3) by (cases post) (auto simp: isLineTerminator_def)
  then have "takeWhile (\<lambda>c. \<not> isLineTerminator c) (captured @ post) = captured"
    using assms(2) by (simp add: takeWhile_append2)
  then show ?thesis
    using assms(1,3) by (simp add: captureLine_def Let_def)
qed

lemma reasoningBacktrack_Some:
  "reasoningBacktrack k rest = Some captured \<Longrightarrow>
     \<exists>j\<le>k. captureLine (drop j rest) = Some captured"
proof (induction k)
  case 0
  then show ?case by simp
next
  case (Suc k)
  show ?case
  proof (cases "captureLine (drop (Suc k) rest)")
    case None
    with Suc.prems have "reasoningBacktrack k rest = Some captured" by simp
    then obtain j where "j \<le> k" "captureLine (drop j rest) = Some captured"
      using Suc.IH by blast
    then have "j \<le> Suc k \<and> captureLine (drop j rest) = Some captured" by simp
    then show ?thesis by blast
  next
    case (Some c)
    with Suc.prems have "captureLine (drop (Suc k) rest) = Some captured" by simp
    then show ?thesis by blast
  qed
qed

lemma reasoningBacktrack_hit:
  "j \<le> k \<Longrightarrow> captureLine (drop j rest) \<noteq> None \<Longrightarrow> reasoningBacktrack k rest \<noteq> None"
proof (induction k)
  case 0
  then show ?case by simp
next
  case (Suc k)
  show ?case
  proof (cases "j = Suc k")
    case True
    with Suc.prems show ?thesis by auto
  next
    case False
    with Suc.prems have "j \<le> k" by simp
    then have "reasoningBacktrack k rest \<noteq> None" using Suc by blast
    then show ?thesis by (cases "captureLine (drop (Suc k) rest)") auto
  qed
qed

lemma reasoningMatchAt_Some:
  assumes "reasoningMatchAt s = Some captured"
  shows "\<exists>marker ws post. s = marker @ ws @ captured @ post
           \<and> canonicalForm marker = canonicalForm ''REASONING:''
           \<and> (\<forall>c\<in>set ws. isWhiteSpace c)
           \<and> captured \<noteq> [] \<and> (\<forall>c\<in>set captured. \<not> isLineTerminator c)
           \<and> (post = [] \<or> hd post = CHR 0x0A)"
proof -
  define n where "n = length ''REASONING:''"
  define rest where "rest = drop n s"
  define k where "k = length (takeWhile isWhiteSpace rest)"
  from assms have sw: "startsWithCI ''REASONING:'' s"
    unfolding reasoningMatchAt_def by (simp split: if_splits)
  with assms have "reasoningBacktrack k rest = Some captured"
    unfolding reasoningMatchAt_def rest_def n_def k_def Let_def by (simp only: if_True)
  from reasoningBacktrack_Some[OF this] obtain j
    where j: "j \<le> k" and c: "captureLine (drop j rest) = Some captured"
    by (elim exE conjE)
  from captureLine_Some[OF c] obtain post where
    cap: "captured \<noteq> []" "\<forall>c\<in>set captured. \<not> isLineTerminator c"
    and d: "drop j rest = captured @ post" and p: "post = [] \<or> hd post = CHR 0x0A"
    by (elim exE conjE)
  from sw have mk: "canonicalForm (take n s) = canonicalForm ''REASONING:''"
    unfolding startsWithCI_def n_def .
  have "take j rest = take j (takeWhile isWhiteSpace rest)"
    using j unfolding k_def
    by (metis append_eq_conv_conj takeWhile_dropWhile_id take_all take_append
          diff_is_0_eq take_0 append_Nil2 min.absorb2 length_take take_take)
  then have ws: "\<forall>c\<in>set (take j rest). isWhiteSpace c"
    by (metis in_set_takeD set_takeWhileD)
  have "s = take n s @ rest" by (simp add: rest_def)
  also have "rest = take j rest @ drop j rest" by simp
  also note d
  finally have "s = take n s @ take j rest @ captured @ post" .
  with mk ws cap p show ?thesis by blast
qed

lemma reasoningMatchAt_hit:
  assumes mk: "canonicalForm marker = canonicalForm ''REASONING:''"
    and ws: "\<forall>c\<in>set ws. isWhiteSpace c"
    and cap: "captured \<noteq> []" "\<forall>c\<in>set captured. \<not> isLineTerminator c"
    and post: "post = [] \<or> hd post = CHR 0x0A"
  shows "reasoningMatchAt (marker @ ws @ captured @ post) \<noteq> None"
proof -
  define n where "n = length ''REASONING:''"
  define rest where "rest = ws @ captured @ post"
  from mk have len: "length marker = n"
    unfolding n_def by (rule canonicalForm_eq_length)
  have sw: "startsWithCI ''REASONING:'' (marker @ ws @ captured @ post)"
    using mk startsWithCI_iff by blast
  have r: "drop n (marker @ ws @ captured @ post) = rest"
    using len by (simp add: rest_def)
  have "takeWhile isWhiteSpace rest = ws @ takeWhile isWhiteSpace (captured @ post)"
    unfolding rest_def using ws by (simp add: takeWhile_append2)
  then have le: "length ws \<le> length (takeWhile isWhiteSpace rest)" by simp
  have "captureLine (drop (length ws) rest) = Some captured"
    unfolding rest_def using captureLine_hit[OF cap post] by simp
  then have "captureLine (drop (length ws) rest) \<noteq> None" by simp
  with le have "reasoningBacktrack (length (takeWhile isWhiteSpace rest)) rest \<noteq> None"
    by (rule reasoningBacktrack_hit)
  with sw r show ?thesis
    unfolding reasoningMatchAt_def Let_def n_def[symmetric] by simp
qed

lemma reasoningMatch_iff:
  "regexSearch reasoningMatchAt text \<noteq> None \<longleftrightarrow> hasReasoningPattern text"
proof
  assume "regexSearch reasoningMatchAt text \<noteq> None"
  then obtain m where "regexSearch reasoningMatchAt text = Some m" by auto
  from regexSearch_Some[OF this] obtain pre suf
    where t: "text = pre @ suf" and "reasoningMatchAt suf = Some m"
    by (elim exE conjE)
  from reasoningMatchAt_Some[OF this(2)] obtain marker ws post where
    "suf = marker @ ws @ m @ post" "canonicalForm marker = canonicalForm ''REASONING:''"
    "\<forall>c\<in>set ws. isWhiteSpace c" "m \<noteq> []" "\<forall>c\<in>set m. \<not> isLineTerminator c"
    "post = [] \<or> hd post = CHR 0x0A"
    by (elim exE conjE)
  then have *: "text = pre @ marker @ ws @ m @ post
        \<and> canonicalForm marker = canonicalForm ''REASONING:''
        \<and> (\<forall>c\<in>set ws. isWhiteSpace c)
        \<and> m \<noteq> [] \<and> (\<forall>c\<in>set m. \<not> isLineTerminator c)
        \<and> (post = [] \<or> hd post = CHR 0x0A)"
    using t by simp
  show "hasReasoningPattern text"
    unfolding hasReasoningPattern_def
    by (rule exI[of _ pre], rule exI[of _ marker], rule exI[of _ ws], rule exI[of _ m],
        rule exI[of _ post], rule *)
next
  assume "hasReasoningPattern text"
  then obtain pre marker ws captured post where
    t: "text = pre @ marker @ ws @ captured @ post"
    and mk: "canonicalForm marker = canonicalForm ''REASONING:''"
    and ws: "\<forall>c\<in>set ws. isWhiteSpace c"
    and cap: "captured \<noteq> []" "\<forall>c\<in>set captured. \<not> isLineTerminator c"
    and post: "post = [] \<or> hd post = CHR 0x0A"
    unfolding hasReasoningPattern_def by (elim exE conjE)
  from mk ws cap post have "reasoningMatchAt (marker @ ws @ captured @ post) \<noteq> None"
    by (rule reasoningMatchAt_hit)
  then show "regexSearch reasoningMatchAt text \<noteq> None"
    unfolding t by (rule regexSearch_hit)
qed

subsection \<open>The parsed intent\<close>

lemma canonicalize_letter:
  assumes "isBasicLetter a" and "canonicalize c = canonicalize a"
  shows "toLowerChar c = toLowerChar a \<and> toUpperChars c = toUpperChars a"
proof -
  define n where "n = (of_char c :: nat)"
  define k where "k = (of_char a :: nat)"
  have c: "c = char_of n" and a: "a = char_of k" by (simp_all add: n_def k_def)
  from assms(1) have k: "(65 \<le> k \<and> k \<le> 90) \<or> (97 \<le> k \<and> k \<le> 122)"
    unfolding isBasicLetter_def k_def Let_def .
  from assms(2) have e: "(if (97 \<le> n \<and> n \<le> 122) \<or> (224 \<le> n \<and> n \<le> 254 \<and> n \<noteq> 247) then n - 32
         else if n = 255 then 376 else if n = 181 then 924 else n)
       = (if (97 \<le> k \<and> k \<le> 122) \<or> (224 \<le> k \<and> k \<le> 254 \<and> k \<noteq> 247) then k - 32
         else if k = 255 then 376 else if k = 181 then 924 else k)"
    unfolding canonicalize_def n_def k_def Let_def .
  from k e consider "n = k" | "65 \<le> k" "k \<le> 90" "n = k + 32" | "97 \<le> k" "k \<le> 122" "n = k - 32"
    by (auto split: if_splits)
  then show ?thesis
  proof cases
    case 1
    then have "c = a" using c a by simp
    then show ?thesis by simp
  next
    case 2
    then have "toLowerChar c = c" "toLowerChar a = char_of (k + 32)"
      "toUpperChars c = [char_of k]" "toUpperChars a = [a]"
      unfolding toLowerChar_def toUpperChars_def Let_def n_def[symmetric] k_def[symmetric]
      by simp_all
    with 2 c a show ?thesis by simp
  next
    case 3
    then have r: "65 \<le> n" "n \<le> 90" "n + 32 = k" by auto
    have "toLowerChar c = char_of (n + 32)" "toUpperChars c = [c]"
      unfolding toLowerChar_def toUpperChars_def Let_def n_def[symmetric]
      using r(1,2) by simp_all
    moreover have "toLowerChar a = a" "toUpperChars a = [char_of (k - 32)]"
      unfolding toLowerChar_def toUpperChars_def Let_def k_def[symmetric]
      using 3(1,2) by simp_all
    moreover have "k - 32 = n" using r(3) by simp
    ultimately show ?thesis using r(3) c a by simp
  qed
qed

lemma canonicalForm_letters:
  "\<forall>x\<in>set alt. isBasicLetter x \<Longrightarrow> canonicalForm m = canonicalForm alt \<Longrightarrow>
     toLowerCase m = toLowerCase alt \<and> toUpperCase m = toUpperCase alt"
proof (induction m arbitrary: alt)
  case Nil
  then show ?case by (simp add: canonicalForm_def)
next
  case (Cons c m)
  then obtain a as where alt: "alt = a # as" and h: "canonicalize c = canonicalize a"
    and t: "canonicalForm m = canonicalForm as"
    by (cases alt) (auto simp: canonicalForm_def)
  from Cons.prems(1) alt have l: "isBasicLetter a" "\<forall>x\<in>set as. isBasicLetter x" by simp_all
  from canonicalize_letter[OF l(1) h] Cons.IH[OF l(2) t] alt show ?case
    by (simp add: toLowerCase_def toUpperCase_def)
qed

lemma intentLabels_letters: "alt \<in> set intentLabels \<Longrightarrow> \<forall>x\<in>set alt. isBasicLetter x"
  by (auto simp: intentLabels_def isBasicLetter_def)

lemma capitalize_labels:
  "alt \<in> set intentLabels \<Longrightarrow> toUpperCase (take 1 alt) @ toLowerCase (drop 1 alt) = alt"
  unfolding intentLabels_def by (elim disjE | simp only: set_simps insert_iff empty_iff | code_simp)+

lemma capitalize_label:
  assumes "alt \<in> set intentLabels" and "canonicalForm m = canonicalForm alt"
  shows "toUpperCase (take 1 m) @ toLowerCase (drop 1 m) = alt"
proof -
  from intentLabels_letters[OF assms(1)]
  have l: "\<forall>x\<in>set (take 1 alt). isBasicLetter x" "\<forall>x\<in>set (drop 1 alt). isBasicLetter x"
    by (auto dest: in_set_takeD in_set_dropD)
  have "canonicalForm (take 1 m) = canonicalForm (take 1 alt)"
    "canonicalForm (drop 1 m) = canonicalForm (drop 1 alt)"
    using assms(2) by (simp_all add: canonicalForm_def take_map[symmetric] drop_map[symmetric])
  with l have "toUpperCase (take 1 m) = toUpperCase (take 1 alt)"
    "toLowerCase (drop 1 m) = toLowerCase (drop 1 alt)"
    using canonicalForm_letters by blast+
  then show ?thesis using capitalize_labels[OF assms(1)] by simp
qed

lemma parseAIResponse_intent: "fst (parseAIResponse v) \<in> set intentLabels"
proof (cases v)
  case (Str reply)
  show ?thesis
  proof (cases "regexSearch intentMatchAt reply")
    case None
    with Str show ?thesis by (simp add: parseAIResponse_def Let_def intentLabels_def)
  next
    case (Some m)
    from regexSearch_Some[OF Some] obtain pre suf where "intentMatchAt suf = Some m"
      by (elim exE conjE)
    from intentMatchAt_Some[OF this] obtain alt
      where alt: "alt \<in> set intentLabels" "canonicalForm m = canonicalForm alt"
      by (elim exE conjE bexE)
    then have "toUpperCase (take 1 m) @ toLowerCase (drop 1 m) = alt"
      by (rule capitalize_label)
    with Str Some alt show ?thesis
      by (simp add: parseAIResponse_def Let_def)
  qed
qed (simp_all add: parseAIResponse_def intentLabels_def)

lemma parseAIResponse_no_intent:
  "\<not> hasIntentPattern reply \<Longrightarrow> fst (parseAIResponse (Str reply)) = ''Medium''"
  using intentMatch_iff[of reply] by (simp add: parseAIResponse_def Let_def)

lemma parseAIResponse_no_reasoning:
  "\<not> hasReasoningPattern reply \<Longrightarrow> snd (parseAIResponse (Str reply)) = ''AI analysis completed''"
  using reasoningMatch_iff[of reply] by (simp add: parseAIResponse_def Let_def)

lemma mapIntentToScore_labels:
  "mapIntentToScore ''High'' = Num 50" "mapIntentToScore ''Medium'' = Num 30"
  "mapIntentToScore ''Low'' = Num 10"
  by (simp_all add: mapIntentToScore_def getProperty_def mapping_def)

lemma mapIntentToScore_label_range:
  "i \<in> set intentLabels \<Longrightarrow> mapIntentToScore i \<in> {Num 10, Num 30, Num 50}"
  unfolding intentLabels_def using mapIntentToScore_labels by auto

lemma mapIntentToScore_default:
  assumes "i \<notin> set intentLabels" and "i \<notin> set objectPrototypeKeys"
  shows "mapIntentToScore i = Num 30"
proof -
  from assms(1) have "map_of mapping i = None"
    by (simp add: mapping_def intentLabels_def)
  with assms(2) show ?thesis by (simp add: mapIntentToScore_def getProperty_def)
qed

subsection \<open>Intent results\<close>

lemma providerScore_Inr:
  assumes "providerScore c l off = Inr r"
  shows "intent r \<in> set intentLabels \<and> score r = mapIntentToScore (intent r)"
proof -
  from assms obtain request content where "c = Some request" "request l off = Inr content"
    and r: "r = \<lparr> intent = fst (parseAIResponse (Str (trim content))),
                 score = mapIntentToScore (fst (parseAIResponse (Str (trim content)))),
                 reasoning = snd (parseAIResponse (Str (trim content))) \<rparr>"
    by (auto simp: providerScore_def Let_def split: option.splits sum.splits prod.splits)
  show ?thesis unfolding r using parseAIResponse_intent by simp
qed

lemma providerScore_range:
  "providerScore c l off = Inr r \<Longrightarrow> score r \<in> {Num 10, Num 30, Num 50}"
  using providerScore_Inr[of c l off r] mapIntentToScore_label_range[of "intent r"] by simp

lemma getFallbackScore_range:
  "getFallbackScore l off = Inr r \<Longrightarrow> score r \<in> {Num 10, Num 30, Num 50}"
  by (auto simp: getFallbackScore_def split: sum.splits option.splits if_splits)

lemma calculateAIScore_sources:
  assumes "calculateAIScore env l off = Inr r"
  shows "providerScore (openai env) l off = Inr r \<or> providerScore (gemini env) l off = Inr r
         \<or> getFallbackScore l off = Inr r"
  using assms
  by (auto simp: calculateAIScore_def calculateOpenAIScore_def calculateGeminiScore_def
        try_catch_def split: sum.splits if_splits)

lemma calculateAIScore_range:
  assumes "calculateAIScore env l off = Inr r"
  shows "score r \<in> {Num 10, Num 30, Num 50}"
  using calculateAIScore_sources[OF assms] providerScore_range getFallbackScore_range
  by blast

lemma scoreLead_Inr:
  assumes "scoreLead env l off = Inr sl"
  shows "\<exists>ruleResult aiResult.
           calculateRuleScore l off = Inr ruleResult
           \<and> calculateAIScore env l off = Inr aiResult
           \<and> lead.truncate sl = l
           \<and> lead_intent sl = intent aiResult
           \<and> lead_score sl = js_plus (totalScore ruleResult) (score aiResult)
           \<and> lead_reasoning sl =
               reasoning aiResult @ '' Rule-based analysis: '' @ getRuleBreakdown ruleResult
           \<and> ruleScore sl = totalScore ruleResult
           \<and> aiScore sl = score aiResult
           \<and> scoreBreakdown sl = ruleResult"
  using assms
  by (auto simp: scoreLead_def try_catch_def Let_def lead.truncate_def
        split: sum.splits)

lemma scoreLead_sample: "scoreLead noProvider sampleLead sampleOffer = Inr sampleScored"
  by code_simp

subsection \<open>The combined score\<close>

lemma scoreLead_produces:
  "calculateAIScore env l off = Inr aiResult \<Longrightarrow> \<exists>sl. scoreLead env l off = Inr sl"
  using calculateRuleScore_total[of l off]
  by (auto simp: scoreLead_def try_catch_def Let_def)

text \<open>Claim C4. \<open>scoreLead\<close> produces a scored lead whenever the intent classification
  of the lead returns. For every scored lead it produces for a lead and an offer, the final
  score is the total of the rule breakdown that \<open>calculateRuleScore\<close> returns for this lead
  and offer plus the score of the intent result that \<open>calculateAIScore\<close> returns for them;
  the rule total is at most 50, the intent score lies between 10 and 50, and so the final
  score lies between 0 and 100.\<close>

theorem scoreLead_finalScore:
  "(scoreLead env l off = Inr sl \<longrightarrow>
      (\<exists>ruleResult aiResult a.
         calculateRuleScore l off = Inr ruleResult
         \<and> calculateAIScore env l off = Inr aiResult
         \<and> score aiResult = Num a
         \<and> scoreBreakdown sl = ruleResult
         \<and> ruleScore sl = totalScore ruleResult
         \<and> aiScore sl = Num a
         \<and> lead_score sl = Num (totalScore ruleResult + a)
         \<and> totalScore ruleResult \<le> 50 \<and> 10 \<le> a \<and> a \<le> 50
         \<and> 0 \<le> totalScore ruleResult + a \<and> totalScore ruleResult + a \<le> 100))
   \<and> (calculateAIScore env l off = Inr aiResult' \<longrightarrow> (\<exists>sl'. scoreLead env l off = Inr sl'))"
proof -
  have "\<exists>ruleResult aiResult a.
         calculateRuleScore l off = Inr ruleResult
         \<and> calculateAIScore env l off = Inr aiResult
         \<and> score aiResult = Num a
         \<and> scoreBreakdown sl = ruleResult
         \<and> ruleScore sl = totalScore ruleResult
         \<and> aiScore sl = Num a
         \<and> lead_score sl = Num (totalScore ruleResult + a)
         \<and> totalScore ruleResult \<le> 50 \<and> 10 \<le> a \<and> a \<le> 50
         \<and> 0 \<le> totalScore ruleResult + a \<and> totalScore ruleResult + a \<le> 100"
    if h: "scoreLead env l off = Inr sl"
  proof -
    from scoreLead_Inr[OF h] obtain ruleResult aiResult where
      r: "calculateRuleScore l off = Inr ruleResult"
      and a: "calculateAIScore env l off = Inr aiResult"
      and s: "lead_score sl = js_plus (totalScore ruleResult) (score aiResult)"
        "ruleScore sl = totalScore ruleResult" "aiScore sl = score aiResult"
        "scoreBreakdown sl = ruleResult"
      by (elim exE conjE)
    from calculateAIScore_range[OF a] obtain n where n: "score aiResult = Num n"
      and nb: "10 \<le> n" "n \<le> 50"
      by auto
    have t: "totalScore ruleResult \<le> 50" using r by (rule calculateRuleScore_le_50)
    have "calculateRuleScore l off = Inr ruleResult
         \<and> calculateAIScore env l off = Inr aiResult
         \<and> score aiResult = Num n
         \<and> scoreBreakdown sl = ruleResult
         \<and> ruleScore sl = totalScore ruleResult
         \<and> aiScore sl = Num n
         \<and> lead_score sl = Num (totalScore ruleResult + n)
         \<and> totalScore ruleResult \<le> 50 \<and> 10 \<le> n \<and> n \<le> 50
         \<and> 0 \<le> totalScore ruleResult + n \<and> totalScore ruleResult + n \<le> 100"
      using r a s n nb t by simp
    then show ?thesis by (intro exI)
  qed
  then show ?thesis using scoreLead_produces[of env l off aiResult'] by blast
qed

theorem scoreLead_finalScore_witness:
  "scoreLead noProvider sampleLead sampleOffer = Inr sampleScored
   \<and> aiScore sampleScored = Num 30 \<and> ruleScore sampleScored = 50
   \<and> lead_score sampleScored = Num (50 + 30)
   \<and> (\<exists>sl. scoreLead noProvider developerLead sampleOffer = Inr sl
          \<and> scoreBreakdown sl = \<lparr> roleScore = 0, industryScore = 20, completenessScore = 10,
                                    totalScore = 30 \<rparr>
          \<and> ruleScore sl = 30 \<and> aiScore sl = Num 10 \<and> lead_score sl = Num 40)"
proof -
  have e: "scoreLead noProvider sampleLead sampleOffer = Inr sampleScored"
    by (rule scoreLead_sample)
  have f: "aiScore sampleScored = Num 30" "ruleScore sampleScored = 50"
    by (simp_all add: sampleScored_def)
  have r: "calculateRuleScore developerLead sampleOffer =
      Inr \<lparr> roleScore = 0, industryScore = 20, completenessScore = 10, totalScore = 30 \<rparr>"
    by code_simp
  have a: "calculateAIScore noProvider developerLead sampleOffer =
      Inr \<lparr> intent = ''Low'', score = Num 10, reasoning = ''Limited indicators of strong fit'' \<rparr>"
    by code_simp
  from a scoreLead_finalScore[of noProvider developerLead sampleOffer]
  obtain sl where sl: "scoreLead noProvider developerLead sampleOffer = Inr sl" by blast
  from sl r a scoreLead_finalScore[of noProvider developerLead sampleOffer sl]
  have "scoreBreakdown sl = \<lparr> roleScore = 0, industryScore = 20, completenessScore = 10,
                                    totalScore = 30 \<rparr>
          \<and> ruleScore sl = 30 \<and> aiScore sl = Num 10 \<and> lead_score sl = Num 40"
    by auto
  with sl have g: "\<exists>sl. scoreLead noProvider developerLead sampleOffer = Inr sl
          \<and> scoreBreakdown sl = \<lparr> roleScore = 0, industryScore = 20, completenessScore = 10,
                                    totalScore = 30 \<rparr>
          \<and> ruleScore sl = 30 \<and> aiScore sl = Num 10 \<and> lead_score sl = Num 40"
    by blast
  from scoreLead_finalScore[of noProvider sampleLead sampleOffer sampleScored] e f
  have "lead_score sampleScored = Num (50 + 30)" by auto
  with e f g show ?thesis by blast
qed

text \<open>Claim C10. Every intent result that reaches the combiner, from a parsed reply, from
  the default for an unrecognised reply or from the fallback heuristic, has score 10, 30
  or 50; hence the final score of every scored lead is at least 10, and 0 is never attained.\<close>

theorem intent_score_never_zero:
  "(calculateAIScore env l off = Inr r \<longrightarrow> score r \<in> {Num 10, Num 30, Num 50})
   \<and> (scoreLead env l off = Inr sl \<longrightarrow>
        aiScore sl \<in> {Num 10, Num 30, Num 50}
        \<and> (\<exists>n. lead_score sl = Num n \<and> 10 \<le> n))"
proof -
  have "aiScore sl \<in> {Num 10, Num 30, Num 50} \<and> (\<exists>n. lead_score sl = Num n \<and> 10 \<le> n)"
    if h: "scoreLead env l off = Inr sl"
  proof -
    from scoreLead_Inr[OF h] obtain ruleResult aiResult where
      "calculateRuleScore l off = Inr ruleResult"
      and a: "calculateAIScore env l off = Inr aiResult"
      and s: "lead_score sl = js_plus (totalScore ruleResult) (score aiResult)"
        "aiScore sl = score aiResult"
      by (elim exE conjE)
    from calculateAIScore_range[OF a] s show ?thesis by auto
  qed
  then show ?thesis using calculateAIScore_range by blast
qed

theorem intent_score_never_zero_witness:
  "calculateAIScore (openaiOnly formatClient) sampleLead sampleOffer =
     Inr \<lparr> intent = ''High'', score = Num 50, reasoning = ''Decision maker in the ICP.'' \<rparr>
   \<and> calculateAIScore (openaiOnly vagueClient) sampleLead sampleOffer =
     Inr \<lparr> intent = ''Medium'', score = Num 30, reasoning = ''AI analysis completed'' \<rparr>
   \<and> calculateAIScore (openaiOnly failingClient) developerLead sampleOffer =
     Inr \<lparr> intent = ''Low'', score = Num 10,
           reasoning = ''Limited indicators of strong fit'' \<rparr>
   \<and> scoreLead noProvider sampleLead sampleOffer = Inr sampleScored
   \<and> aiScore sampleScored \<in> {Num 10, Num 30, Num 50}
   \<and> (\<exists>n. lead_score sampleScored = Num n \<and> 10 \<le> n)"
proof -
  have a: "calculateAIScore (openaiOnly formatClient) sampleLead sampleOffer =
     Inr \<lparr> intent = ''High'', score = Num 50, reasoning = ''Decision maker in the ICP.'' \<rparr>"
    by code_simp
  have b: "calculateAIScore (openaiOnly vagueClient) sampleLead sampleOffer =
     Inr \<lparr> intent = ''Medium'', score = Num 30, reasoning = ''AI analysis completed'' \<rparr>"
    by code_simp
  have c: "calculateAIScore (openaiOnly failingClient) developerLead sampleOffer =
     Inr \<lparr> intent = ''Low'', score = Num 10,
           reasoning = ''Limited indicators of strong fit'' \<rparr>"
    by code_simp
  have d: "scoreLead noProvider sampleLead sampleOffer = Inr sampleScored"
    by (rule scoreLead_sample)
  show ?thesis
    using a b c d
      intent_score_never_zero[of "openaiOnly formatClient" sampleLead sampleOffer
        "\<lparr> intent = ''High'', score = Num 50, reasoning = ''Decision maker in the ICP.'' \<rparr>"
        sampleScored]
      intent_score_never_zero[of noProvider sampleLead sampleOffer
        "\<lparr> intent = ''High'', score = Num 50, reasoning = ''Decision maker in the ICP.'' \<rparr>"
        sampleScored]
    by blast
qed

subsection \<open>Unparseable replies\<close>

text \<open>Claim C5 as stated fails twice. The reply \<open>REASONING: good fit\<close> has no intent pattern,
  yet its reasoning is the extracted text \<open>good fit\<close>, not the placeholder: the two
  patterns are searched independently. And the intent value \<open>constructor\<close>, outside
  High, Medium and Low, is a member that the mapping object inherits, so the default 30
  does not apply to it.\<close>

theorem parseAIResponse_placeholder_counterexample:
  "\<not> hasIntentPattern ''REASONING: good fit''
   \<and> parseAIResponse (Str ''REASONING: good fit'') = (''Medium'', ''good fit'')
   \<and> ''good fit'' \<noteq> ''AI analysis completed''
   \<and> ''constructor'' \<notin> {''High'', ''Medium'', ''Low''}
   \<and> mapIntentToScore ''constructor'' = ObjectMember ''constructor''
   \<and> ObjectMember ''constructor'' \<noteq> Num 30"
proof -
  have "regexSearch intentMatchAt ''REASONING: good fit'' = None" by code_simp
  then have "\<not> hasIntentPattern ''REASONING: good fit''"
    using intentMatch_iff[of "''REASONING: good fit''"] by simp
  moreover have "parseAIResponse (Str ''REASONING: good fit'') = (''Medium'', ''good fit'')"
    by code_simp
  moreover have "mapIntentToScore ''constructor'' = ObjectMember ''constructor''"
    by code_simp
  ultimately show ?thesis by simp
qed

text \<open>Claim C5, amended. For every reply in which the pattern \<open>INTENT: <High|Medium|Low>\<close>
  is absent the parser returns intent Medium, which maps to score 30, and a provider that
  answered returns a result, not an error; the reasoning is the placeholder
  \<open>AI analysis completed\<close> when the pattern \<open>REASONING: <text>\<close> is absent as well.
  Likewise every intent value outside High, Medium and Low that is not the name of a member
  inherited from \<open>Object.prototype\<close> maps to score 30.\<close>

theorem parseAIResponse_absent_patterns:
  "(\<not> hasIntentPattern reply \<longrightarrow>
      fst (parseAIResponse (Str reply)) = ''Medium''
      \<and> mapIntentToScore (fst (parseAIResponse (Str reply))) = Num 30
      \<and> (\<not> hasReasoningPattern reply \<longrightarrow>
           snd (parseAIResponse (Str reply)) = ''AI analysis completed''))
   \<and> (request l off = Inr content \<and> \<not> hasIntentPattern (trim content) \<longrightarrow>
        (\<exists>r. providerScore (Some request) l off = Inr r
              \<and> intent r = ''Medium'' \<and> score r = Num 30))
   \<and> (i \<notin> {''High'', ''Medium'', ''Low''} \<and> i \<notin> set objectPrototypeKeys \<longrightarrow>
        mapIntentToScore i = Num 30)"
proof -
  have a: "fst (parseAIResponse (Str reply)) = ''Medium''
      \<and> mapIntentToScore (fst (parseAIResponse (Str reply))) = Num 30
      \<and> (\<not> hasReasoningPattern reply \<longrightarrow>
           snd (parseAIResponse (Str reply)) = ''AI analysis completed'')"
    if "\<not> hasIntentPattern reply"
    using that parseAIResponse_no_intent[of reply] parseAIResponse_no_reasoning[of reply]
      mapIntentToScore_labels(2)
    by simp
  have b: "\<exists>r. providerScore (Some request) l off = Inr r
              \<and> intent r = ''Medium'' \<and> score r = Num 30"
    if "request l off = Inr content" "\<not> hasIntentPattern (trim content)"
    using that parseAIResponse_no_intent[of "trim content"] mapIntentToScore_labels(2)
    by (auto simp: providerScore_def Let_def split: prod.splits)
  have c: "mapIntentToScore i = Num 30"
    if "i \<notin> {''High'', ''Medium'', ''Low''}" "i \<notin> set objectPrototypeKeys"
    using that mapIntentToScore_default[of i] by (simp add: intentLabels_def)
  show ?thesis using a b c by blast
qed

theorem parseAIResponse_absent_patterns_witness:
  "\<not> hasIntentPattern ''I cannot classify this lead.''
   \<and> \<not> hasReasoningPattern ''I cannot classify this lead.''
   \<and> parseAIResponse (Str ''I cannot classify this lead.'') = (''Medium'', ''AI analysis completed'')
   \<and> (\<exists>r. providerScore (Some vagueClient) sampleLead sampleOffer = Inr r
          \<and> intent r = ''Medium'' \<and> score r = Num 30)
   \<and> mapIntentToScore ''Very High'' = Num 30
   \<and> hasIntentPattern (''INTENT:'' @ [CHR 0xA0] @ ''High'')
   \<and> parseAIResponse (Str (''INTENT:'' @ [CHR 0xA0] @ ''High'')) = (''High'', ''AI analysis completed'')"
proof -
  have "regexSearch intentMatchAt ''I cannot classify this lead.'' = None" by code_simp
  then have a: "\<not> hasIntentPattern ''I cannot classify this lead.''"
    using intentMatch_iff[of "''I cannot classify this lead.''"] by simp
  have "regexSearch reasoningMatchAt ''I cannot classify this lead.'' = None" by code_simp
  then have b: "\<not> hasReasoningPattern ''I cannot classify this lead.''"
    using reasoningMatch_iff[of "''I cannot classify this lead.''"] by simp
  have c: "vagueClient sampleLead sampleOffer = Inr ''I cannot classify this lead.''"
    by (simp add: vagueClient_def)
  have d: "trim ''I cannot classify this lead.'' = ''I cannot classify this lead.''"
    by code_simp
  have e: "''Very High'' \<notin> {''High'', ''Medium'', ''Low''}"
    "''Very High'' \<notin> set objectPrototypeKeys"
    by (simp_all add: objectPrototypeKeys_def)
  have "regexSearch intentMatchAt (''INTENT:'' @ [CHR 0xA0] @ ''High'') = Some ''High''"
    by code_simp
  then have f: "hasIntentPattern (''INTENT:'' @ [CHR 0xA0] @ ''High'')"
    using intentMatch_iff[of "''INTENT:'' @ [CHR 0xA0] @ ''High''"] by simp
  have g: "parseAIResponse (Str (''INTENT:'' @ [CHR 0xA0] @ ''High''))
             = (''High'', ''AI analysis completed'')"
    by code_simp
  show ?thesis
    using a b c d e f g
      parseAIResponse_absent_patterns[of "''I cannot classify this lead.''" vagueClient
        sampleLead sampleOffer "''I cannot classify this lead.''" "''Very High''"]
    by (simp add: prod_eq_iff)
qed

subsection \<open>The reasoning text\<close>

lemma getRuleBreakdown_spec: "getRuleBreakdown r = ruleClauseSpec r"
  by (cases "roleScore r = 0"; cases "industryScore r = 0"; cases "completenessScore r = 0")
     (simp_all add: getRuleBreakdown_def ruleClauseSpec_def renderPart_def Let_def
        del: numberToString.simps)

text \<open>Claim C9. The reasoning of every scored lead that \<open>scoreLead\<close> produces for a lead
  and an offer is the reasoning of the intent result that \<open>calculateAIScore\<close> returns for
  them, followed by \<open> Rule-based analysis: \<close> and the rule clause of the breakdown that
  \<open>calculateRuleScore\<close> returns for them: the sub-scores that are not zero, in the order
  role, industry, completeness, each rendered as \<open><label> (<N> pts)\<close> and joined by a comma
  and a space, or \<open>no rule matches\<close> when all three are zero. \<open>getRuleBreakdown\<close> computes
  exactly this clause, and a scored lead is produced whenever the intent classification
  returns.\<close>

theorem scoreLead_reasoning:
  "getRuleBreakdown r = ruleClauseSpec r
   \<and> (scoreLead env l off = Inr sl \<longrightarrow>
        (\<exists>ruleResult aiResult.
           calculateRuleScore l off = Inr ruleResult
           \<and> calculateAIScore env l off = Inr aiResult
           \<and> scoreBreakdown sl = ruleResult
           \<and> lead_reasoning sl =
               reasoning aiResult @ '' Rule-based analysis: '' @ ruleClauseSpec ruleResult))
   \<and> (calculateAIScore env l off = Inr aiResult' \<longrightarrow> (\<exists>sl'. scoreLead env l off = Inr sl'))"
proof -
  have "\<exists>ruleResult aiResult.
           calculateRuleScore l off = Inr ruleResult
           \<and> calculateAIScore env l off = Inr aiResult
           \<and> scoreBreakdown sl = ruleResult
           \<and> lead_reasoning sl =
               reasoning aiResult @ '' Rule-based analysis: '' @ ruleClauseSpec ruleResult"
    if h: "scoreLead env l off = Inr sl"
  proof -
    from scoreLead_Inr[OF h] obtain ruleResult aiResult where
      r: "calculateRuleScore l off = Inr ruleResult"
      and a: "calculateAIScore env l off = Inr aiResult"
      and s: "lead_reasoning sl =
               reasoning aiResult @ '' Rule-based analysis: '' @ getRuleBreakdown ruleResult"
        "scoreBreakdown sl = ruleResult"
      by (elim exE conjE)
    have "calculateRuleScore l off = Inr ruleResult
           \<and> calculateAIScore env l off = Inr aiResult
           \<and> scoreBreakdown sl = ruleResult
           \<and> lead_reasoning sl =
               reasoning aiResult @ '' Rule-based analysis: '' @ ruleClauseSpec ruleResult"
      using r a s by (simp add: getRuleBreakdown_spec)
    then show ?thesis by (intro exI)
  qed
  then show ?thesis
    using getRuleBreakdown_spec[of r] scoreLead_produces[of env l off aiResult'] by blast
qed

theorem scoreLead_reasoning_witness:
  "scoreLead noProvider sampleLead sampleOffer = Inr sampleScored
   \<and> lead_reasoning sampleScored =
       ''Moderate indicators present'' @ '' Rule-based analysis: ''
       @ ''role relevance (20 pts), industry match (20 pts), data completeness (10 pts)''
   \<and> (\<exists>sl. scoreLead noProvider developerLead sampleOffer = Inr sl
          \<and> lead_reasoning sl =
              ''Limited indicators of strong fit'' @ '' Rule-based analysis: ''
              @ ''industry match (20 pts), data completeness (10 pts)'')
   \<and> (\<exists>sl. scoreLead noProvider blankLead sampleOffer = Inr sl
          \<and> lead_reasoning sl =
              ''Limited indicators of strong fit'' @ '' Rule-based analysis: ''
              @ ''no rule matches'')
   \<and> getRuleBreakdown \<lparr> roleScore = 0, industryScore = 10, completenessScore = 0,
        totalScore = 10 \<rparr> = ''industry match (10 pts)''"
proof -
  have low: "calculateAIScore noProvider developerLead sampleOffer =
      Inr \<lparr> intent = ''Low'', score = Num 10, reasoning = ''Limited indicators of strong fit'' \<rparr>"
    "calculateAIScore noProvider blankLead sampleOffer =
      Inr \<lparr> intent = ''Low'', score = Num 10, reasoning = ''Limited indicators of strong fit'' \<rparr>"
    by code_simp+
  have med: "calculateAIScore noProvider sampleLead sampleOffer =
      Inr \<lparr> intent = ''Medium'', score = Num 30, reasoning = ''Moderate indicators present'' \<rparr>"
    by code_simp
  have rule: "calculateRuleScore sampleLead sampleOffer =
      Inr \<lparr> roleScore = 20, industryScore = 20, completenessScore = 10, totalScore = 50 \<rparr>"
    "calculateRuleScore developerLead sampleOffer =
      Inr \<lparr> roleScore = 0, industryScore = 20, completenessScore = 10, totalScore = 30 \<rparr>"
    "calculateRuleScore blankLead sampleOffer =
      Inr \<lparr> roleScore = 0, industryScore = 0, completenessScore = 0, totalScore = 0 \<rparr>"
    by code_simp+
  have clause:
    "ruleClauseSpec \<lparr> roleScore = 20, industryScore = 20, completenessScore = 10, totalScore = 50 \<rparr>
       = ''role relevance (20 pts), industry match (20 pts), data completeness (10 pts)''"
    "ruleClauseSpec \<lparr> roleScore = 0, industryScore = 20, completenessScore = 10, totalScore = 30 \<rparr>
       = ''industry match (20 pts), data completeness (10 pts)''"
    "ruleClauseSpec \<lparr> roleScore = 0, industryScore = 0, completenessScore = 0, totalScore = 0 \<rparr>
       = ''no rule matches''"
    "ruleClauseSpec \<lparr> roleScore = 0, industryScore = 10, completenessScore = 0, totalScore = 10 \<rparr>
       = ''industry match (10 pts)''"
    by code_simp+
  have a: "scoreLead noProvider sampleLead sampleOffer = Inr sampleScored"
    by (rule scoreLead_sample)
  note inst = scoreLead_reasoning[of
      "\<lparr> roleScore = 0, industryScore = 10, completenessScore = 0, totalScore = 10 \<rparr>"
      noProvider]
  from a med rule(1) clause(1) inst[of sampleLead sampleOffer sampleScored]
  have s1: "lead_reasoning sampleScored =
       ''Moderate indicators present'' @ '' Rule-based analysis: ''
       @ ''role relevance (20 pts), industry match (20 pts), data completeness (10 pts)''"
    by auto
  from low(1) inst[of developerLead sampleOffer]
  obtain sl2 where sl2: "scoreLead noProvider developerLead sampleOffer = Inr sl2" by blast
  from sl2 low(1) rule(2) clause(2) inst[of developerLead sampleOffer sl2]
  have s2: "lead_reasoning sl2 =
              ''Limited indicators of strong fit'' @ '' Rule-based analysis: ''
              @ ''industry match (20 pts), data completeness (10 pts)''"
    by auto
  from low(2) inst[of blankLead sampleOffer]
  obtain sl3 where sl3: "scoreLead noProvider blankLead sampleOffer = Inr sl3" by blast
  from sl3 low(2) rule(3) clause(3) inst[of blankLead sampleOffer sl3]
  have s3: "lead_reasoning sl3 =
              ''Limited indicators of strong fit'' @ '' Rule-based analysis: ''
              @ ''no rule matches''"
    by auto
  from clause(4) inst[of sampleLead sampleOffer sampleScored]
  have s4: "getRuleBreakdown \<lparr> roleScore = 0, industryScore = 10, completenessScore = 0,
        totalScore = 10 \<rparr> = ''industry match (10 pts)''"
    by simp
  from a s1 s2 sl2 s3 sl3 s4 show ?thesis by blast
qed

subsection \<open>The batch\<close>

lemma those_map_Some: "those (map Some vs) = Some vs"
  by (induction vs) simp_all

lemma settleAll_all_fulfilled:
  assumes "length promises = length vs" and "length slots = length vs"
    and "\<forall>i<length vs. promises ! i = Inr (vs ! i)"
    and "\<forall>i<length vs. slots ! i = Some (vs ! i) \<or> i \<in> set order"
  shows "settleAll order promises slots = Fulfilled vs"
  using assms(2,4)
proof (induction order arbitrary: slots)
  case Nil
  then have "slots = map Some vs"
    by (simp add: list_eq_iff_nth_eq)
  then show ?case by (simp add: those_map_Some)
next
  case (Cons i order)
  show ?case
  proof (cases "i < length promises")
    case True
    then have p: "promises ! i = Inr (vs ! i)" using assms(1,3) by simp
    have "settleAll order promises (slots[i := Some (vs ! i)]) = Fulfilled vs"
    proof (rule Cons.IH)
      show "length (slots[i := Some (vs ! i)]) = length vs" using Cons.prems(1) by simp
      show "\<forall>j<length vs. slots[i := Some (vs ! i)] ! j = Some (vs ! j) \<or> j \<in> set order"
      proof (intro allI impI)
        fix j assume j: "j < length vs"
        show "slots[i := Some (vs ! i)] ! j = Some (vs ! j) \<or> j \<in> set order"
        proof (cases "j = i")
          case True
          with j Cons.prems(1) show ?thesis by simp
        next
          case False
          with j Cons.prems(2) show ?thesis by auto
        qed
      qed
    qed
    with True p show ?thesis by simp
  next
    case False
    have "settleAll order promises slots = Fulfilled vs"
    proof (rule Cons.IH)
      show "length slots = length vs" by (rule Cons.prems(1))
      show "\<forall>j<length vs. slots ! j = Some (vs ! j) \<or> j \<in> set order"
        using Cons.prems(2) False assms(1) by auto
    qed
    with False show ?thesis by simp
  qed
qed

lemma settleAll_some_rejected:
  assumes "\<exists>i\<in>set order. i < length promises \<and> (\<exists>e. promises ! i = Inl e)"
  shows "\<exists>e. settleAll order promises slots = Rejected e"
  using assms
proof (induction order arbitrary: slots)
  case Nil
  then show ?case by simp
next
  case (Cons i order)
  show ?case
  proof (cases "i < length promises")
    case True
    show ?thesis
    proof (cases "promises ! i")
      case (Inl e)
      with True show ?thesis by simp
    next
      case (Inr v)
      with True Cons.prems have "\<exists>j\<in>set order. j < length promises \<and> (\<exists>e. promises ! j = Inl e)"
        by auto
      then have "\<exists>e. settleAll order promises (slots[i := Some v]) = Rejected e"
        by (rule Cons.IH)
      with True Inr show ?thesis by simp
    qed
  next
    case False
    with Cons.prems have "\<exists>j\<in>set order. j < length promises \<and> (\<exists>e. promises ! j = Inl e)"
      by auto
    then have "\<exists>e. settleAll order promises slots = Rejected e"
      by (rule Cons.IH)
    with False show ?thesis by simp
  qed
qed

lemma promiseAll_fulfilled:
  assumes "{..<length promises} \<subseteq> set order"
    and "\<forall>i<length promises. promises ! i = Inr (vs ! i)" and "length vs = length promises"
  shows "promiseAll order promises = Fulfilled vs"
  unfolding promiseAll_def
proof (rule settleAll_all_fulfilled)
  show "length promises = length vs" using assms(3) by simp
  show "length (replicate (length promises) None) = length vs" using assms(3) by simp
  show "\<forall>i<length vs. promises ! i = Inr (vs ! i)" using assms(2,3) by simp
  show "\<forall>i<length vs. replicate (length promises) None ! i = Some (vs ! i) \<or> i \<in> set order"
    using assms(1,3) by auto
qed

lemma promiseAll_rejected:
  assumes "{..<length promises} \<subseteq> set order"
    and "i < length promises" and "promises ! i = Inl e"
  shows "\<exists>e'. promiseAll order promises = Rejected e'"
  unfolding promiseAll_def
proof (rule settleAll_some_rejected)
  from assms(1,2) have "i \<in> set order" by auto
  with assms(2,3) show "\<exists>i\<in>set order. i < length promises \<and> (\<exists>e. promises ! i = Inl e)"
    by blast
qed

text \<open>Claim C3. Whatever the order in which the per-lead promises settle (\<open>order\<close> is any
  permutation of the indices), \<open>scoreLeads\<close> returns either one scored lead per input
  lead, the i-th result being the score of the i-th lead and carrying that lead's own
  fields, or the single batch failure, and the latter exactly when scoring some lead failed.
  It never returns a shorter or partly filled list.\<close>

theorem scoreLeads_all_or_nothing:
  assumes "distinct order" and "set order = {..<length leads}"
  shows "(\<exists>results. scoreLeads env order leads off = Some (Inr results)
            \<and> length results = length leads
            \<and> (\<forall>i<length leads. scoreLead env (leads ! i) off = Inr (results ! i)
                  \<and> lead.truncate (results ! i) = leads ! i))
         \<or> (scoreLeads env order leads off = Some (Inl (AppError ''Failed to score leads'' 500))
            \<and> (\<exists>i<length leads. \<exists>e. scoreLead env (leads ! i) off = Inl e))"
proof (cases "\<exists>i<length leads. \<exists>e. scoreLead env (leads ! i) off = Inl e")
  case True
  then obtain i e where i: "i < length leads" "scoreLead env (leads ! i) off = Inl e"
    by blast
  define promises where "promises = map (\<lambda>l. scoreLead env l off) leads"
  have "{..<length promises} \<subseteq> set order" using assms(2) by (simp add: promises_def)
  moreover have "i < length promises" "promises ! i = Inl e"
    using i by (simp_all add: promises_def)
  ultimately obtain e' where "promiseAll order promises = Rejected e'"
    using promiseAll_rejected by blast
  then have "scoreLeads env order leads off = Some (Inl (AppError ''Failed to score leads'' 500))"
    by (simp add: scoreLeads_def promises_def)
  with True show ?thesis by blast
next
  case False
  define promises where "promises = map (\<lambda>l. scoreLead env l off) leads"
  define results where "results = map projr promises"
  have ok: "\<forall>i<length promises. promises ! i = Inr (results ! i)"
  proof (intro allI impI)
    fix i assume i: "i < length promises"
    with False have "\<not> (\<exists>e. promises ! i = Inl e)" by (simp add: promises_def)
    then obtain v where "promises ! i = Inr v" by (cases "promises ! i") auto
    with i show "promises ! i = Inr (results ! i)" by (simp add: results_def)
  qed
  have "{..<length promises} \<subseteq> set order" using assms(2) by (simp add: promises_def)
  then have "promiseAll order promises = Fulfilled results"
    using ok by (rule promiseAll_fulfilled) (simp add: results_def)
  then have r: "scoreLeads env order leads off = Some (Inr results)"
    by (simp add: scoreLeads_def promises_def)
  have len: "length results = length leads" by (simp add: results_def promises_def)
  have each: "scoreLead env (leads ! i) off = Inr (results ! i)
      \<and> lead.truncate (results ! i) = leads ! i" if "i < length leads" for i
  proof -
    from that ok have e: "scoreLead env (leads ! i) off = Inr (results ! i)"
      by (simp add: promises_def)
    from scoreLead_Inr[OF e] have "lead.truncate (results ! i) = leads ! i" by blast
    with e show ?thesis by simp
  qed
  from r len each show ?thesis by blast
qed

theorem scoreLeads_all_or_nothing_witness:
  "distinct [1, 0 :: nat]
   \<and> set [1, 0 :: nat] = {..<length [sampleLead, developerLead]}
   \<and> (\<exists>results. scoreLeads noProvider [1, 0] [sampleLead, developerLead] sampleOffer
                    = Some (Inr results)
          \<and> length results = 2
          \<and> lead.truncate (results ! 0) = sampleLead
          \<and> lead.truncate (results ! 1) = developerLead)
   \<and> scoreLeads noProvider [0] [sampleLead] (sampleOffer\<lparr> ideal_use_cases := None \<rparr>)
       = Some (Inl (AppError ''Failed to score leads'' 500))"
proof -
  have h1: "distinct [1, 0 :: nat]" by simp
  have h2: "set [1, 0 :: nat] = {..<length [sampleLead, developerLead]}" by auto
  have ok: "\<not> isl (scoreLead noProvider sampleLead sampleOffer)"
    "\<not> isl (scoreLead noProvider developerLead sampleOffer)"
    by code_simp+
  have none_fails: "\<not> (\<exists>i<length [sampleLead, developerLead].
      \<exists>e. scoreLead noProvider ([sampleLead, developerLead] ! i) sampleOffer = Inl e)"
  proof
    assume "\<exists>i<length [sampleLead, developerLead].
      \<exists>e. scoreLead noProvider ([sampleLead, developerLead] ! i) sampleOffer = Inl e"
    then obtain i e where i: "i < length [sampleLead, developerLead]"
      and e: "scoreLead noProvider ([sampleLead, developerLead] ! i) sampleOffer = Inl e"
      by blast
    from i have "i = 0 \<or> i = 1" by auto
    with e ok show False by auto
  qed
  have f: "scoreLeads noProvider [0] [sampleLead] (sampleOffer\<lparr> ideal_use_cases := None \<rparr>)
       = Some (Inl (AppError ''Failed to score leads'' 500))"
    by code_simp
  from scoreLeads_all_or_nothing[OF h1 h2, of noProvider sampleOffer] none_fails
  obtain results where
    "scoreLeads noProvider [1, 0] [sampleLead, developerLead] sampleOffer = Some (Inr results)"
    "length results = length [sampleLead, developerLead]"
    "\<forall>i<length [sampleLead, developerLead].
        scoreLead noProvider ([sampleLead, developerLead] ! i) sampleOffer = Inr (results ! i)
        \<and> lead.truncate (results ! i) = [sampleLead, developerLead] ! i"
    by blast
  then have "scoreLeads noProvider [1, 0] [sampleLead, developerLead] sampleOffer
                    = Some (Inr results)
          \<and> length results = 2
          \<and> lead.truncate (results ! 0) = sampleLead
          \<and> lead.truncate (results ! 1) = developerLead"
    by auto
  with h1 h2 f show ?thesis by blast
qed

end
